theory Spec2Isabelle
  imports Main
begin

section \<open>Data model of the client (client/src/lib/types.ts, client/src/lib/api.ts)\<close>

text \<open>
  JavaScript strings are modelled as \<open>string\<close>: one \<open>char\<close> per code unit, which covers
  the code units up to U+00FF. JavaScript numbers that hold line numbers and layout
  coordinates are modelled as \<open>int\<close>; \<open>NaN\<close> is never stored in a field (the one place
  that can produce it, \<open>parseInt\<close>, is modelled with \<open>None\<close> for \<open>NaN\<close>), and
  \<open>parseInt\<close> rounds to the nearest double as the runtime does.

  An optional property of an object that takes part in an object spread is modelled by
  \<open>'a field\<close>, which keeps apart a key that is missing from the object (\<open>Absent\<close>), a
  key that is there and holds \<open>undefined\<close> (\<open>Undefined\<close>), and a key that holds a value.
  Reading the property gives \<open>undefined\<close> in the first two cases (\<open>read\<close>). Optional
  properties that are only read are modelled by \<open>option\<close>.
\<close>

datatype 'a field = Absent | Undefined | Value 'a

fun read :: "'a field \<Rightarrow> 'a option" where
  "read Absent = None"
| "read Undefined = None"
| "read (Value v) = Some v"

text \<open>\<open>const v = o\<close>, then \<open>{ key: v }\<close>: the key is written even when \<open>v\<close> is \<open>undefined\<close>.\<close>

fun stored :: "'a option \<Rightarrow> 'a field" where
  "stored None = Undefined"
| "stored (Some v) = Value v"

datatype NodeStatus = Pending | Failed | Succeeded

record CfgNodeData =
  blockId :: string
  blockName :: string
  codeSnippet :: string
  status :: NodeStatus
  file_field :: "string field"
  lineStart :: "int field"
  lineEnd :: "int field"
  executionCount :: "int field"

record Position =
  pos_x :: int
  pos_y :: int

text \<open>The React Flow node type, instantiated with \<open>CfgNodeData\<close>, as far as the client builds it.\<close>

record Node =
  node_id :: string
  node_type :: "string option"
  position :: Position
  data :: CfgNodeData

record Edge =
  edge_id :: string
  source :: string
  target :: string
  edge_type :: "string option"
  animated :: "bool option"
  label :: "string option"

record ApiNode =
  api_id :: string
  code_chunk :: string
  explanation :: "string option"
  relationships :: "string option"
  filename :: "string option"
  line_range :: "string option"

record ApiEdge =
  api_edge_id :: string
  from_node :: string
  to_node :: string
  relationship_type :: "string option"

record ApiControlFlowResponse =
  api_nodes :: "ApiNode list"
  api_edges :: "ApiEdge list"
  api_task_description :: "string option"

record ControlFlowResponse =
  nodes :: "Node list"
  edges :: "Edge list"
  task_description :: "string option"

section \<open>String primitives of the runtime\<close>

text \<open>\<open>String.prototype.split\<close> with a one-character separator: the parts between the
  occurrences of the separator, so there is always one part more than separators.\<close>

fun split :: "char \<Rightarrow> string \<Rightarrow> string list" where
  "split sep [] = [[]]"
| "split sep (c # cs) =
     (if c = sep then [] # split sep cs
      else (case split sep cs of
              [] \<Rightarrow> [[c]]
            | p # ps \<Rightarrow> (c # p) # ps))"

text \<open>The white space and line terminators that \<open>parseInt\<close> and \<open>trim\<close> strip, among
  the code units up to U+00FF: TAB, LF, VT, FF, CR, SP, NBSP.\<close>

definition isStrWhiteSpaceChar :: "char \<Rightarrow> bool" where
  "isStrWhiteSpaceChar c \<longleftrightarrow>
     (of_char c :: nat) \<in> {0x09, 0x0A, 0x0B, 0x0C, 0x0D, 0x20, 0xA0}"

definition isDigit :: "char \<Rightarrow> bool" where
  "isDigit c \<longleftrightarrow> 48 \<le> (of_char c :: nat) \<and> (of_char c :: nat) \<le> 57"

definition digitValue :: "char \<Rightarrow> nat" where
  "digitValue c = (of_char c :: nat) - 48"

definition mathInt :: "string \<Rightarrow> nat" where
  "mathInt Z = foldl (\<lambda>acc c. 10 * acc + digitValue c) 0 Z"

text \<open>
  The Number value of a non-negative integer: the integer itself when it fits into the
  53 bits of a double's significand, otherwise the nearest multiple of the power of two
  that is left over, a tie going to the even significand. (An integer from
  \<open>2^1024 - 2^970\<close> on has the Number value \<open>Infinity\<close>, which the integer model of
  numbers does not have; a decimal numeral of up to 308 digits is below that.)
\<close>

fun bitLength :: "nat \<Rightarrow> nat" where
  "bitLength n = (if n = 0 then 0 else Suc (bitLength (n div 2)))"

declare bitLength.simps [simp del]

definition numberValue :: "nat \<Rightarrow> nat" where
  "numberValue n =
     (if bitLength n \<le> 53 then n
      else (let e = bitLength n - 53;
                q = n div 2 ^ e;
                r = n mod 2 ^ e;
                half = 2 ^ (e - 1)
            in (if half < r \<or> (r = half \<and> odd q) then q + 1 else q) * 2 ^ e))"

text \<open>
  \<open>parseInt(string, 10)\<close>: skip leading white space, take an optional sign, then the
  longest run of decimal digits; \<open>None\<close> stands for \<open>NaN\<close> (no digit). The result is
  the Number value of the mathematical value of the digits, so a run that denotes
  \<open>2^53 + 1\<close> gives \<open>2^53\<close>. (Past the 20th significant digit ECMAScript leaves
  an implementation free to read the digits as \<open>0\<close>; the model rounds the exact value, as
  the engines that convert the whole run do, and needs no such freedom for a run of up to
  20 digits.)
\<close>

definition parseInt :: "string \<Rightarrow> int option" where
  "parseInt inputString =
     (let S = dropWhile isStrWhiteSpaceChar inputString;
          sign = (if S \<noteq> [] \<and> hd S = CHR ''-'' then - 1 else 1 :: int);
          S' = (if S \<noteq> [] \<and> (hd S = CHR ''+'' \<or> hd S = CHR ''-'') then tl S else S);
          Z = takeWhile isDigit S'
      in if Z = [] then None else Some (sign * int (numberValue (mathInt Z))))"

section \<open>transformApiResponseToReactFlow (client/src/lib/api.ts)\<close>

text \<open>The body of the \<open>if (apiNode.line_range)\<close> block: the pair \<open>(lineStart, lineEnd)\<close>
  as the two \<open>let\<close> variables hold it afterwards. An empty string is falsy.\<close>

definition parseLineRange :: "string option \<Rightarrow> int option \<times> int option" where
  "parseLineRange lr =
     (case lr of
        None \<Rightarrow> (None, None)
      | Some s \<Rightarrow>
          if s = [] then (None, None)
          else (let parts = split CHR ''-'' s
                in if length parts = 2
                   then (parseInt (parts ! 0), parseInt (parts ! 1))
                   else (None, None)))"

definition transformNode :: "ApiNode \<Rightarrow> Node" where
  "transformNode apiNode =
     (let (lineStart', lineEnd') = parseLineRange (line_range apiNode);
          blockName' = api_id apiNode;
          nodeData = \<lparr> blockId = api_id apiNode,
                       blockName = blockName',
                       codeSnippet = code_chunk apiNode,
                       status = Pending,
                       file_field = stored (filename apiNode),
                       lineStart = stored lineStart',
                       lineEnd = stored lineEnd',
                       executionCount = Absent \<rparr>
      in \<lparr> node_id = api_id apiNode,
           node_type = Some ''cfgNode'',
           position = \<lparr> pos_x = 0, pos_y = 0 \<rparr>,
           data = nodeData \<rparr>)"

definition transformEdge :: "ApiEdge \<Rightarrow> Edge" where
  "transformEdge apiEdge =
     \<lparr> edge_id = api_edge_id apiEdge,
       source = from_node apiEdge,
       target = to_node apiEdge,
       edge_type = Some ''smoothstep'',
       animated = Some False,
       label = relationship_type apiEdge \<rparr>"

definition transformApiResponseToReactFlow :: "ApiControlFlowResponse \<Rightarrow> ControlFlowResponse" where
  "transformApiResponseToReactFlow apiResponse =
     \<lparr> nodes = map transformNode (api_nodes apiResponse),
       edges = map transformEdge (api_edges apiResponse),
       task_description = api_task_description apiResponse \<rparr>"

text \<open>A response of two blocks and two edges, used to run the transform.\<close>

definition sampleApiResponse :: ApiControlFlowResponse where
  "sampleApiResponse =
     \<lparr> api_nodes =
         [\<lparr> api_id = ''b1'', code_chunk = ''x = 1'', explanation = None,
            relationships = None, filename = Some ''a.py'', line_range = Some ''15-24'' \<rparr>,
          \<lparr> api_id = ''b2'', code_chunk = ''return x'', explanation = None,
            relationships = None, filename = None, line_range = None \<rparr>],
       api_edges =
         [\<lparr> api_edge_id = ''e1'', from_node = ''b1'', to_node = ''b2'',
            relationship_type = Some ''calls'' \<rparr>,
          \<lparr> api_edge_id = ''e2'', from_node = ''b2'', to_node = ''b1'',
            relationship_type = None \<rparr>],
       api_task_description = None \<rparr>"


section \<open>convertNodesToBlocks (client/src/lib/api.ts)\<close>

record Block =
  block_id :: string
  file_path :: string
  start_line :: int
  end_line :: int

text \<open>Truthiness of a value of type \<open>string | undefined\<close>: \<open>undefined\<close> and the empty
  string are falsy.\<close>

definition truthyString :: "string option \<Rightarrow> bool" where
  "truthyString v \<longleftrightarrow> (case v of None \<Rightarrow> False | Some s \<Rightarrow> s \<noteq> [])"

text \<open>\<open>v || ''\<close> on \<open>string | undefined\<close> and \<open>v || 0\<close> on \<open>number | undefined\<close>
  (zero is falsy).\<close>

definition orEmpty :: "string option \<Rightarrow> string" where
  "orEmpty v = (case v of None \<Rightarrow> [] | Some s \<Rightarrow> if s \<noteq> [] then s else [])"

definition orZero :: "int option \<Rightarrow> int" where
  "orZero v = (case v of None \<Rightarrow> 0 | Some n \<Rightarrow> if n \<noteq> 0 then n else 0)"

definition convertNodesToBlocks :: "Node list \<Rightarrow> Block list" where
  "convertNodesToBlocks ns =
     map (\<lambda>node. \<lparr> block_id = node_id node,
                   file_path = orEmpty (read (file_field (data node))),
                   start_line = orZero (read (lineStart (data node))),
                   end_line = orZero (read (lineEnd (data node))) \<rparr>)
       (filter (\<lambda>node. truthyString (read (file_field (data node)))
                      \<and> read (lineStart (data node)) \<noteq> None
                      \<and> read (lineEnd (data node)) \<noteq> None) ns)"

section \<open>mergeNodesWithAnalysis (client/src/App.tsx)\<close>

text \<open>
  The object spread \<open>{ ...node.data, ...update.data }\<close>: every key of the update's data
  overrides the key of the current data; a key the update does not have keeps the current
  entry. The four required properties are keys of every \<open>CfgNodeData\<close>.
\<close>

definition overrideField :: "'a field \<Rightarrow> 'a field \<Rightarrow> 'a field" where
  "overrideField cur upd = (case upd of Absent \<Rightarrow> cur | Undefined \<Rightarrow> Undefined | Value v \<Rightarrow> Value v)"

definition spreadData :: "CfgNodeData \<Rightarrow> CfgNodeData \<Rightarrow> CfgNodeData" where
  "spreadData cur upd =
     \<lparr> blockId = blockId upd,
       blockName = blockName upd,
       codeSnippet = codeSnippet upd,
       status = status upd,
       file_field = overrideField (file_field cur) (file_field upd),
       lineStart = overrideField (lineStart cur) (lineStart upd),
       lineEnd = overrideField (lineEnd cur) (lineEnd upd),
       executionCount = overrideField (executionCount cur) (executionCount upd) \<rparr>"

text \<open>\<open>new Map(updates.map((node) => [node.id, node]))\<close>: a later entry with the same
  key replaces the earlier one.\<close>

definition updateMapOf :: "Node list \<Rightarrow> (string \<rightharpoonup> Node)" where
  "updateMapOf updates = fold (\<lambda>node m. m(node_id node \<mapsto> node)) updates Map.empty"

text \<open>The \<open>updates.forEach\<close> loop, on the pair of \<open>merged\<close> and \<open>existingIds\<close> that it
  mutates.\<close>

definition appendMissing :: "Node list \<Rightarrow> Node list \<times> string set \<Rightarrow> Node list \<times> string set" where
  "appendMissing updates st =
     fold (\<lambda>node (merged, existingIds).
             if node_id node \<notin> existingIds
             then (merged @ [node], insert (node_id node) existingIds)
             else (merged, existingIds))
       updates st"

text \<open>\<open>updates\<close> is an optional parameter: \<open>None\<close> is \<open>undefined\<close>.\<close>

definition mergeNodesWithAnalysis :: "Node list \<Rightarrow> Node list option \<Rightarrow> Node list" where
  "mergeNodesWithAnalysis current updates =
     (case updates of
        None \<Rightarrow> current
      | Some us \<Rightarrow>
          if length us = 0 then current
          else (let updateMap = updateMapOf us;
                    existingIds = set (map node_id current);
                    merged = map (\<lambda>node. case updateMap (node_id node) of
                                          None \<Rightarrow> node
                                        | Some update \<Rightarrow>
                                            node\<lparr> data := spreadData (data node) (data update) \<rparr>)
                               current
                in fst (appendMissing us (merged, existingIds))))"

text \<open>The nodes that the \<open>forEach\<close> loop appends when it starts from the id set \<open>S\<close>
  (used to describe \<open>appendMissing\<close>).\<close>

fun newNodes :: "string set \<Rightarrow> Node list \<Rightarrow> Node list" where
  "newNodes S [] = []"
| "newNodes S (u # us) =
     (if node_id u \<notin> S then u # newNodes (insert (node_id u) S) us else newNodes S us)"

text \<open>An analysis payload for the sample diagram: new data for block \<open>b2\<close> and a block
  \<open>b3\<close> that the diagram does not have.\<close>

definition sampleCurrent :: "Node list" where
  "sampleCurrent = nodes (transformApiResponseToReactFlow sampleApiResponse)"

definition sampleUpdates :: "Node list" where
  "sampleUpdates =
     [\<lparr> node_id = ''b2'', node_type = Some ''cfgNode'',
        position = \<lparr> pos_x = 40, pos_y = 80 \<rparr>,
        data = \<lparr> blockId = ''b2'', blockName = ''Return'', codeSnippet = ''return x'',
                 status = Failed, file_field = Value ''a.py'', lineStart = Absent,
                 lineEnd = Absent, executionCount = Value 1 \<rparr> \<rparr>,
      \<lparr> node_id = ''b3'', node_type = Some ''cfgNode'',
        position = \<lparr> pos_x = 0, pos_y = 160 \<rparr>,
        data = \<lparr> blockId = ''b3'', blockName = ''Exit'', codeSnippet = ''pass'',
                 status = Succeeded, file_field = Absent, lineStart = Absent,
                 lineEnd = Absent, executionCount = Absent \<rparr> \<rparr>]"

section \<open>Runtime steps and problems (client/src/lib/types.ts)\<close>

datatype RuntimeValue =
    VString string
  | VNumber int
  | VBoolean bool
  | VNull
  | VUndefined
  | VArray "RuntimeValue list"
  | VObject "(string \<times> RuntimeValue) list"

type_synonym VariableState = "(string \<times> RuntimeValue) list"

text \<open>The status of a step ranges over the same three literals as \<open>NodeStatus\<close>.\<close>

record RuntimeStep =
  step_id :: string
  step_blockId :: string
  step_blockName :: string
  step_codeSnippet :: string
  before :: VariableState
  after :: VariableState
  step_status :: NodeStatus
  error :: "string option"

datatype Severity = SevError | SevWarning

record Problem =
  problem_id :: string
  problem_blockId :: string
  stepId :: string
  description :: string
  severity :: Severity

section \<open>The mock payload (client/src/lib/mockData.ts)\<close>

text \<open>The score-processing demo: \<open>initialNodes\<close>, \<open>initialEdges\<close> and \<open>mockProblems\<close>.\<close>

definition initialNodes :: "Node list" where
  "initialNodes =
     [\<lparr> node_id = ''block-entry'', node_type = Some ''cfgNode'',
        position = \<lparr> pos_x = 400, pos_y = 0 \<rparr>,
        data = \<lparr> blockId = ''block-entry'', blockName = ''Entry'',
                 codeSnippet = ''scores = [85, 92, -5, 78, 95]; total = 0; count = 0; threshold = 80'',
                 status = Succeeded, file_field = Value ''score_processor.py'',
                 lineStart = Value 5, lineEnd = Value 5, executionCount = Value 1 \<rparr> \<rparr>,
      \<lparr> node_id = ''block-loop'', node_type = Some ''cfgNode'',
        position = \<lparr> pos_x = 400, pos_y = 120 \<rparr>,
        data = \<lparr> blockId = ''block-loop'', blockName = ''Loop'',
                 codeSnippet = ''for score in scores:'',
                 status = Succeeded, file_field = Value ''score_processor.py'',
                 lineStart = Value 7, lineEnd = Value 7, executionCount = Value 5 \<rparr> \<rparr>,
      \<lparr> node_id = ''block-validate'', node_type = Some ''cfgNode'',
        position = \<lparr> pos_x = 400, pos_y = 240 \<rparr>,
        data = \<lparr> blockId = ''block-validate'', blockName = ''Validate'',
                 codeSnippet = ''if score < 0 or score > 100:'',
                 status = Succeeded, file_field = Value ''score_processor.py'',
                 lineStart = Value 8, lineEnd = Value 8, executionCount = Value 5 \<rparr> \<rparr>,
      \<lparr> node_id = ''block-skip-invalid'', node_type = Some ''cfgNode'',
        position = \<lparr> pos_x = 200, pos_y = 360 \<rparr>,
        data = \<lparr> blockId = ''block-skip-invalid'', blockName = ''Skip Invalid'',
                 codeSnippet = ''continue'',
                 status = Succeeded, file_field = Value ''score_processor.py'',
                 lineStart = Value 9, lineEnd = Value 9, executionCount = Value 1 \<rparr> \<rparr>,
      \<lparr> node_id = ''block-filter'', node_type = Some ''cfgNode'',
        position = \<lparr> pos_x = 600, pos_y = 360 \<rparr>,
        data = \<lparr> blockId = ''block-filter'', blockName = ''Filter'',
                 codeSnippet = ''if score >= threshold:'',
                 status = Succeeded, file_field = Value ''score_processor.py'',
                 lineStart = Value 11, lineEnd = Value 11, executionCount = Value 4 \<rparr> \<rparr>,
      \<lparr> node_id = ''block-aggregate'', node_type = Some ''cfgNode'',
        position = \<lparr> pos_x = 600, pos_y = 480 \<rparr>,
        data = \<lparr> blockId = ''block-aggregate'', blockName = ''Aggregate'',
                 codeSnippet = ''total += score; count += 2'',
                 status = Failed, file_field = Value ''score_processor.py'',
                 lineStart = Value 12, lineEnd = Value 13, executionCount = Value 3 \<rparr> \<rparr>,
      \<lparr> node_id = ''block-exit-check'', node_type = Some ''cfgNode'',
        position = \<lparr> pos_x = 600, pos_y = 600 \<rparr>,
        data = \<lparr> blockId = ''block-exit-check'', blockName = ''Exit Check'',
                 codeSnippet = ''if count >= 3:'',
                 status = Succeeded, file_field = Value ''score_processor.py'',
                 lineStart = Value 14, lineEnd = Value 14, executionCount = Value 3 \<rparr> \<rparr>,
      \<lparr> node_id = ''block-early-exit'', node_type = Some ''cfgNode'',
        position = \<lparr> pos_x = 800, pos_y = 720 \<rparr>,
        data = \<lparr> blockId = ''block-early-exit'', blockName = ''Early Exit'',
                 codeSnippet = ''break'',
                 status = Succeeded, file_field = Value ''score_processor.py'',
                 lineStart = Value 15, lineEnd = Value 15, executionCount = Value 1 \<rparr> \<rparr>,
      \<lparr> node_id = ''block-return'', node_type = Some ''cfgNode'',
        position = \<lparr> pos_x = 400, pos_y = 840 \<rparr>,
        data = \<lparr> blockId = ''block-return'', blockName = ''Return'',
                 codeSnippet = ''return total / count if count > 0 else 0'',
                 status = Succeeded, file_field = Value ''score_processor.py'',
                 lineStart = Value 18, lineEnd = Value 18, executionCount = Value 1 \<rparr> \<rparr>]"

definition initialEdges :: "Edge list" where
  "initialEdges =
     [\<lparr> edge_id = ''e-entry-loop'', source = ''block-entry'', target = ''block-loop'',
        edge_type = None, animated = None, label = None \<rparr>,
      \<lparr> edge_id = ''e-loop-validate'', source = ''block-loop'', target = ''block-validate'',
        edge_type = None, animated = None, label = None \<rparr>,
      \<lparr> edge_id = ''e-validate-skip'', source = ''block-validate'', target = ''block-skip-invalid'',
        edge_type = None, animated = None, label = None \<rparr>,
      \<lparr> edge_id = ''e-skip-loop'', source = ''block-skip-invalid'', target = ''block-loop'',
        edge_type = None, animated = None, label = None \<rparr>,
      \<lparr> edge_id = ''e-validate-filter'', source = ''block-validate'', target = ''block-filter'',
        edge_type = None, animated = None, label = None \<rparr>,
      \<lparr> edge_id = ''e-filter-loop'', source = ''block-filter'', target = ''block-loop'',
        edge_type = None, animated = None, label = None \<rparr>,
      \<lparr> edge_id = ''e-filter-aggregate'', source = ''block-filter'', target = ''block-aggregate'',
        edge_type = None, animated = None, label = None \<rparr>,
      \<lparr> edge_id = ''e-aggregate-exit-check'', source = ''block-aggregate'', target = ''block-exit-check'',
        edge_type = None, animated = None, label = None \<rparr>,
      \<lparr> edge_id = ''e-exit-check-loop'', source = ''block-exit-check'', target = ''block-loop'',
        edge_type = None, animated = None, label = None \<rparr>,
      \<lparr> edge_id = ''e-exit-check-early'', source = ''block-exit-check'', target = ''block-early-exit'',
        edge_type = None, animated = None, label = None \<rparr>,
      \<lparr> edge_id = ''e-early-return'', source = ''block-early-exit'', target = ''block-return'',
        edge_type = None, animated = None, label = None \<rparr>,
      \<lparr> edge_id = ''e-loop-return'', source = ''block-loop'', target = ''block-return'',
        edge_type = None, animated = None, label = None \<rparr>]"

definition mockProblems :: "Problem list" where
  "mockProblems =
     [\<lparr> problem_id = ''prob-1'', problem_blockId = ''block-aggregate'', stepId = ''step-21'',
        description = ''count increments by 2, should increment by 1'',
        severity = SevError \<rparr>,
      \<lparr> problem_id = ''prob-2'', problem_blockId = ''block-return'', stepId = ''step-24'',
        description = ''Average calculation incorrect: count is 4 but should be 3 (bug in aggregate)'',
        severity = SevWarning \<rparr>]"

text \<open>The counter demo, the other revision of the same file.\<close>

definition initialNodes_counter :: "Node list" where
  "initialNodes_counter =
     [\<lparr> node_id = ''block-A'', node_type = Some ''cfgNode'',
        position = \<lparr> pos_x = 250, pos_y = 0 \<rparr>,
        data = \<lparr> blockId = ''block-A'', blockName = ''Block A'',
                 codeSnippet = (''cnt = 0; s = '' @ [CHR 0x27] @ ''LLM'' @ [CHR 0x27]),
                 status = Succeeded, file_field = Value ''counter.py'',
                 lineStart = Value 10, lineEnd = Value 10, executionCount = Absent \<rparr> \<rparr>,
      \<lparr> node_id = ''block-B'', node_type = Some ''cfgNode'',
        position = \<lparr> pos_x = 250, pos_y = 150 \<rparr>,
        data = \<lparr> blockId = ''block-B'', blockName = ''Block B'',
                 codeSnippet = ''for c in s:'',
                 status = Succeeded, file_field = Value ''counter.py'',
                 lineStart = Value 12, lineEnd = Value 12, executionCount = Absent \<rparr> \<rparr>,
      \<lparr> node_id = ''block-C'', node_type = Some ''cfgNode'',
        position = \<lparr> pos_x = 100, pos_y = 300 \<rparr>,
        data = \<lparr> blockId = ''block-C'', blockName = ''Block C'',
                 codeSnippet = ''cnt += 2'',
                 status = Failed, file_field = Value ''counter.py'',
                 lineStart = Value 13, lineEnd = Value 13, executionCount = Absent \<rparr> \<rparr>,
      \<lparr> node_id = ''block-D'', node_type = Some ''cfgNode'',
        position = \<lparr> pos_x = 400, pos_y = 300 \<rparr>,
        data = \<lparr> blockId = ''block-D'', blockName = ''Block D'',
                 codeSnippet = ''pass'',
                 status = Pending, file_field = Value ''counter.py'',
                 lineStart = Value 15, lineEnd = Value 15, executionCount = Absent \<rparr> \<rparr>]"

definition initialEdges_counter :: "Edge list" where
  "initialEdges_counter =
     [\<lparr> edge_id = ''e1-2'', source = ''block-A'', target = ''block-B'',
        edge_type = None, animated = None, label = None \<rparr>,
      \<lparr> edge_id = ''e2-3'', source = ''block-B'', target = ''block-C'',
        edge_type = None, animated = None, label = None \<rparr>,
      \<lparr> edge_id = ''e2-4'', source = ''block-B'', target = ''block-D'',
        edge_type = None, animated = None, label = None \<rparr>,
      \<lparr> edge_id = ''e3-2'', source = ''block-C'', target = ''block-B'',
        edge_type = None, animated = None, label = None \<rparr>]"

definition mockProblems_counter :: "Problem list" where
  "mockProblems_counter =
     [\<lparr> problem_id = ''prob-1'', problem_blockId = ''block-C'', stepId = ''step-3'',
        description = ''cnt increments by 2, should be 1'',
        severity = SevError \<rparr>,
      \<lparr> problem_id = ''prob-2'', problem_blockId = ''block-C'', stepId = ''step-5'',
        description = ''cnt increments by 2, should be 1'',
        severity = SevError \<rparr>]"

definition mockSteps_counter :: "RuntimeStep list" where
  "mockSteps_counter =
     [\<lparr> step_id = ''step-1'', step_blockId = ''block-A'', step_blockName = ''Block A'',
        step_codeSnippet = (''cnt = 0; s = '' @ [CHR 0x27] @ ''LLM'' @ [CHR 0x27]),
        before = [(''s'', VString ''LLM''), (''cnt'', VUndefined)],
        after = [(''s'', VString ''LLM''), (''cnt'', VNumber 0)],
        step_status = Succeeded, error = None \<rparr>,
      \<lparr> step_id = ''step-2'', step_blockId = ''block-B'', step_blockName = ''Block B'',
        step_codeSnippet = ''for c in s:'',
        before = [(''cnt'', VNumber 0), (''s'', VString ''LLM'')],
        after = [(''cnt'', VNumber 0), (''c'', VString ''L'')],
        step_status = Succeeded, error = None \<rparr>,
      \<lparr> step_id = ''step-3'', step_blockId = ''block-C'', step_blockName = ''Block C'',
        step_codeSnippet = ''cnt += 2'',
        before = [(''cnt'', VNumber 0), (''c'', VString ''L'')],
        after = [(''cnt'', VNumber 2), (''c'', VString ''L'')],
        step_status = Failed, error = Some ''cnt increments by 2, should be 1'' \<rparr>,
      \<lparr> step_id = ''step-4'', step_blockId = ''block-B'', step_blockName = ''Block B'',
        step_codeSnippet = ''for c in s:'',
        before = [(''cnt'', VNumber 2), (''c'', VString ''L'')],
        after = [(''cnt'', VNumber 2), (''c'', VString ''L'')],
        step_status = Succeeded, error = None \<rparr>,
      \<lparr> step_id = ''step-5'', step_blockId = ''block-C'', step_blockName = ''Block C'',
        step_codeSnippet = ''cnt += 2'',
        before = [(''cnt'', VNumber 2), (''c'', VString ''L'')],
        after = [(''cnt'', VNumber 4), (''c'', VString ''L'')],
        step_status = Failed, error = Some ''cnt increments by 2, should be 1'' \<rparr>]"

section \<open>Referential completeness of a payload\<close>

text \<open>Every block id that an edge names as its source or target, and every block id
  that a problem names, is the id of a node of the list.\<close>

definition referentiallyComplete :: "Node list \<Rightarrow> Edge list \<Rightarrow> Problem list \<Rightarrow> bool" where
  "referentiallyComplete ns es ps \<longleftrightarrow>
     (\<forall>e \<in> set es. source e \<in> set (map node_id ns) \<and> target e \<in> set (map node_id ns))
     \<and> (\<forall>p \<in> set ps. problem_blockId p \<in> set (map node_id ns))"

section \<open>handleNodeClick (client/src/App.tsx)\<close>

text \<open>The two pieces of selection state that the handler sets.\<close>

record Selection =
  activeStepId :: "string option"
  activeNodeId :: "string option"

definition handleNodeClick :: "RuntimeStep list \<Rightarrow> string \<Rightarrow> Selection \<Rightarrow> Selection" where
  "handleNodeClick steps nodeId sel =
     (let sel' = sel\<lparr> activeNodeId := Some nodeId \<rparr>;
          nodeSteps = filter (\<lambda>s. step_blockId s = nodeId) steps
      in if length nodeSteps > 0
         then (case find (\<lambda>s. step_status s = Failed) nodeSteps of
                 Some failedStep \<Rightarrow> sel'\<lparr> activeStepId := Some (step_id failedStep) \<rparr>
               | None \<Rightarrow>
                   sel'\<lparr> activeStepId := Some (step_id (nodeSteps ! (length nodeSteps - 1))) \<rparr>)
         else sel'\<lparr> activeStepId := None \<rparr>)"

section \<open>extractSourcesFromNodes (client/src/lib/api.ts)\<close>

record Source =
  src_file_path :: string
  src_code :: string

text \<open>
  A JavaScript \<open>Map\<close> is modelled as an association list in insertion order, which is the
  order \<open>forEach\<close> visits: \<open>mapSet\<close> keeps the place of a key that is there and puts a
  new key last.
\<close>

definition mapHas :: "('k \<times> 'v) list \<Rightarrow> 'k \<Rightarrow> bool" where
  "mapHas m k \<longleftrightarrow> k \<in> set (map fst m)"

definition mapGet :: "('k \<times> 'v) list \<Rightarrow> 'k \<Rightarrow> 'v option" where
  "mapGet m k = map_of m k"

fun mapSet :: "('k \<times> 'v) list \<Rightarrow> 'k \<Rightarrow> 'v \<Rightarrow> ('k \<times> 'v) list" where
  "mapSet [] k v = [(k, v)]"
| "mapSet ((k', v') # m) k v = (if k' = k then (k, v) # m else (k', v') # mapSet m k v)"

text \<open>\<open>String.prototype.trim\<close> and \<open>Array.prototype.join\<close>.\<close>

definition trim :: "string \<Rightarrow> string" where
  "trim s = rev (dropWhile isStrWhiteSpaceChar (rev (dropWhile isStrWhiteSpaceChar s)))"

fun join :: "string \<Rightarrow> string list \<Rightarrow> string" where
  "join sep [] = []"
| "join sep [x] = x"
| "join sep (x # y # ys) = x @ sep @ join sep (y # ys)"

text \<open>The body of \<open>nodes.forEach\<close>: the node is pushed onto the array of its file, which
  is created on the first node of that file. The array is the one the map holds, so the
  push is a new value under the same key.\<close>

definition groupStep :: "Node \<Rightarrow> (string \<times> Node list) list \<Rightarrow> (string \<times> Node list) list" where
  "groupStep node fileMap =
     (if truthyString (read (file_field (data node)))
      then (case read (file_field (data node)) of
              None \<Rightarrow> fileMap
            | Some file' \<Rightarrow>
                (let fileMap' = (if \<not> mapHas fileMap file' then mapSet fileMap file' []
                                 else fileMap)
                 in case mapGet fileMap' file' of
                      None \<Rightarrow> fileMap'
                    | Some fileNodes \<Rightarrow> mapSet fileMap' file' (fileNodes @ [node])))
      else fileMap)"

text \<open>
  The comparator \<open>(a, b) => (a.data.lineStart || 0) - (b.data.lineStart || 0)\<close> orders the
  nodes by the key \<open>lineStart || 0\<close>. \<open>Array.prototype.sort\<close> is stable, so the sorted copy
  is the stable sort by that key, which \<open>sort_key\<close> computes.
\<close>

definition lineKey :: "Node \<Rightarrow> int" where
  "lineKey node = orZero (read (lineStart (data node)))"

text \<open>The body of \<open>fileMap.forEach\<close>, on the \<open>sources\<close> array that it pushes onto.\<close>

definition sourceStep :: "string \<times> Node list \<Rightarrow> Source list \<Rightarrow> Source list" where
  "sourceStep entry sources =
     (let filePath = fst entry;
          fileNodes = snd entry;
          sortedNodes = sort_key lineKey fileNodes;
          codeSnippets = filter (\<lambda>code. code \<noteq> [] \<and> length (trim code) > 0)
                           (map (\<lambda>node. codeSnippet (data node)) sortedNodes)
      in if length codeSnippets > 0
         then sources @ [\<lparr> src_file_path = filePath,
                           src_code = join [CHR 0x0A, CHR 0x0A] codeSnippets \<rparr>]
         else sources)"

definition extractSourcesFromNodes :: "Node list \<Rightarrow> Source list" where
  "extractSourcesFromNodes ns =
     (let fileMap = fold groupStep ns [];
          sources = fold sourceStep fileMap []
      in sources)"

text \<open>The key a node is grouped under (none when its \<open>file\<close> is falsy), and the
  snippets that \<open>fileMap.forEach\<close> keeps for the nodes of one file (used to describe the
  two loops).\<close>

definition groupKey :: "Node \<Rightarrow> string option" where
  "groupKey node =
     (if truthyString (read (file_field (data node))) then read (file_field (data node))
      else None)"

definition snippetsOf :: "Node list \<Rightarrow> string list" where
  "snippetsOf fileNodes =
     filter (\<lambda>code. code \<noteq> [] \<and> length (trim code) > 0)
       (map (\<lambda>node. codeSnippet (data node)) (sort_key lineKey fileNodes))"

text \<open>A string has content when one of its characters is not white space.\<close>

definition hasContent :: "string \<Rightarrow> bool" where
  "hasContent s \<longleftrightarrow> (\<exists>c \<in> set s. \<not> isStrWhiteSpaceChar c)"

text \<open>Nodes of two files, out of line order, with a blank snippet, a node without a file
  and a node whose file is the empty string.\<close>

definition sampleSourceNodes :: "Node list" where
  "sampleSourceNodes =
     [\<lparr> node_id = ''n1'', node_type = Some ''cfgNode'',
        position = \<lparr> pos_x = 0, pos_y = 0 \<rparr>,
        data = \<lparr> blockId = ''n1'', blockName = ''n1'', codeSnippet = ''return y'',
                 status = Pending, file_field = Value ''a.py'', lineStart = Value 20,
                 lineEnd = Value 20, executionCount = Absent \<rparr> \<rparr>,
      \<lparr> node_id = ''n2'', node_type = Some ''cfgNode'',
        position = \<lparr> pos_x = 0, pos_y = 0 \<rparr>,
        data = \<lparr> blockId = ''n2'', blockName = ''n2'', codeSnippet = ''  '',
                 status = Pending, file_field = Value ''b.py'', lineStart = Undefined,
                 lineEnd = Undefined, executionCount = Absent \<rparr> \<rparr>,
      \<lparr> node_id = ''n3'', node_type = Some ''cfgNode'',
        position = \<lparr> pos_x = 0, pos_y = 0 \<rparr>,
        data = \<lparr> blockId = ''n3'', blockName = ''n3'', codeSnippet = ''y = -y'',
                 status = Pending, file_field = Value ''a.py'', lineStart = Value 3,
                 lineEnd = Value 4, executionCount = Absent \<rparr> \<rparr>,
      \<lparr> node_id = ''n4'', node_type = Some ''cfgNode'',
        position = \<lparr> pos_x = 0, pos_y = 0 \<rparr>,
        data = \<lparr> blockId = ''n4'', blockName = ''n4'', codeSnippet = ''pass'',
                 status = Pending, file_field = Undefined, lineStart = Value 1,
                 lineEnd = Value 1, executionCount = Absent \<rparr> \<rparr>,
      \<lparr> node_id = ''n5'', node_type = Some ''cfgNode'',
        position = \<lparr> pos_x = 0, pos_y = 0 \<rparr>,
        data = \<lparr> blockId = ''n5'', blockName = ''n5'', codeSnippet = ''x = 0'',
                 status = Pending, file_field = Value '''', lineStart = Value 2,
                 lineEnd = Value 2, executionCount = Absent \<rparr> \<rparr>]"

section \<open>FailureLocator (spec section 4.4)\<close>

text \<open>
  Modelled from the spec: the FailureLocator, which belongs to the backend of the
  repository (\<open>mcp/core\<close>) and is not among the sources. The spec has it walk the failing
  trace in execution order, check each event for agreement (with an explicit assertion
  recorded at that point or, absent one, by the differential comparison with the passing
  trace) and report the first point of disagreement; several divergent variables at that
  point are all reported, the variable of the failing oracle first; without a passing trace
  only the terminal event is compared.
\<close>

text \<open>Modelled from the spec: the TraceEvent and the FailureNode of the data model
  (section 3), which the backend defines.\<close>

datatype EventStatus = EvOk | EvAborted | EvTruncated

record TraceEvent =
  ev_block :: string
  ev_occurrence :: nat
  ev_snapshot :: VariableState
  ev_status :: EventStatus

record FailureNode =
  fn_block :: string
  fn_step :: nat
  fn_variables :: "string list"
  fn_rank :: nat

text \<open>Modelled from the spec: the ranking of the divergent variables of one point, the
  variable that the failing oracle refers to first (section 4.4).\<close>

definition rankVariables :: "string \<Rightarrow> string list \<Rightarrow> string list" where
  "rankVariables oracleVar vs =
     filter (\<lambda>v. v = oracleVar) vs @ filter (\<lambda>v. v \<noteq> oracleVar) vs"

text \<open>Modelled from the spec: the FailureNodes reported for step \<open>i\<close>, one for each
  divergent variable in rank order. The check of one event is the parameter \<open>check\<close>: it
  gets the step index and the event and gives the variables on which the event disagrees,
  none when it agrees.\<close>

definition failureNodesAt ::
  "(nat \<Rightarrow> TraceEvent \<Rightarrow> string list) \<Rightarrow> string \<Rightarrow> TraceEvent list \<Rightarrow> nat \<Rightarrow> FailureNode list"
where
  "failureNodesAt check oracleVar trace i =
     map (\<lambda>(r, v). \<lparr> fn_block = ev_block (trace ! i), fn_step = i,
                       fn_variables = [v], fn_rank = r \<rparr>)
       (enumerate 0 (rankVariables oracleVar (check i (trace ! i))))"

text \<open>Modelled from the spec: the walk of the FailureLocator over the failing trace
  (section 4.4); \<open>hasPassing\<close> tells whether a passing comparison trace is there, and
  without one only the terminal event is checked.\<close>

definition locateFailure ::
  "(nat \<Rightarrow> TraceEvent \<Rightarrow> string list) \<Rightarrow> string \<Rightarrow> bool \<Rightarrow> TraceEvent list \<Rightarrow> FailureNode list"
where
  "locateFailure check oracleVar hasPassing failing =
     (if hasPassing
      then (case find (\<lambda>i. check i (failing ! i) \<noteq> []) [0..<length failing] of
              None \<Rightarrow> []
            | Some i \<Rightarrow> failureNodesAt check oracleVar failing i)
      else if failing = [] then []
      else failureNodesAt check oracleVar failing (length failing - 1))"

text \<open>
  The scenario of the spec: \<open>if y < 0: y = -y; return y\<close> with the second block mutated to
  \<open>y = -y * 2\<close>, run on \<open>f(-3)\<close>. The check compares \<open>y\<close> at each step with the value of
  the unmutated program.
\<close>

definition scenarioTrace :: "TraceEvent list" where
  "scenarioTrace =
     [\<lparr> ev_block = ''test'', ev_occurrence = 0, ev_snapshot = [(''y'', VNumber (- 3))],
        ev_status = EvOk \<rparr>,
      \<lparr> ev_block = ''negate'', ev_occurrence = 0, ev_snapshot = [(''y'', VNumber 6)],
        ev_status = EvOk \<rparr>,
      \<lparr> ev_block = ''return'', ev_occurrence = 0, ev_snapshot = [(''y'', VNumber 6)],
        ev_status = EvOk \<rparr>]"

definition scenarioCheck :: "nat \<Rightarrow> TraceEvent \<Rightarrow> string list" where
  "scenarioCheck i e =
     (if map_of (ev_snapshot e) ''y'' = Some (VNumber (if i = 0 then - 3 else 3)) then []
      else [''y''])"

section \<open>SliceExtractor (spec section 4.5)\<close>

text \<open>
  Modelled from the spec: the SliceExtractor, which belongs to the backend of the
  repository (\<open>mcp/core\<close>) and is not among the sources. The spec has it traverse the
  control-flow predecessors backwards, breadth first, from the FailureNodes, stopping at
  the entry block (which has no predecessor) or when the budget of \<open>K\<close> blocks is used up;
  when the budget is tight, blocks that ran in the failing trace are kept over blocks that
  did not, and among those the blocks nearer a FailureNode in trace order. The slice is the
  blocks reached, the edges between them and the trace events that touch them.
\<close>

text \<open>Modelled from the spec: the ControlFlowEdge, the ControlFlowGraph (blocks by their
  ids) and the FailureSlice of the data model (section 3), which the backend defines.\<close>

record ControlFlowEdge =
  cf_source :: string
  cf_target :: string
  cf_label :: "string option"
  cf_back :: bool

record ControlFlowGraph =
  cfg_blocks :: "string list"
  cfg_edges :: "ControlFlowEdge list"
  cfg_entry :: string
  cfg_exits :: "string list"


text \<open>Modelled from the spec: the control-flow predecessors of a block, which the
  traversal of the SliceExtractor follows.\<close>

definition predecessors :: "ControlFlowGraph \<Rightarrow> string \<Rightarrow> string list" where
  "predecessors cfg b =
     remdups (map cf_source (filter (\<lambda>e. cf_target e = b) (cfg_edges cfg)))"





text \<open>The control-flow graph of the scenario of the spec and its FailureNode.\<close>

definition scenarioCfg :: ControlFlowGraph where
  "scenarioCfg =
     \<lparr> cfg_blocks = [''test'', ''negate'', ''return''],
       cfg_edges =
         [\<lparr> cf_source = ''test'', cf_target = ''negate'', cf_label = Some ''y < 0'',
            cf_back = False \<rparr>,
          \<lparr> cf_source = ''test'', cf_target = ''return'', cf_label = None, cf_back = False \<rparr>,
          \<lparr> cf_source = ''negate'', cf_target = ''return'', cf_label = None,
            cf_back = False \<rparr>],
       cfg_entry = ''test'',
       cfg_exits = [''return''] \<rparr>"


section \<open>The two payload transforms on an explicit store\<close>

text \<open>
  To state that a function leaves its input alone, the arrays it works on are put into a
  store: a list of arrays, where an address is an index and a new array is appended. The
  operations of the runtime that write are \<open>push\<close> and \<open>sort\<close> (in place); the spread
  \<open>[...xs]\<close> and \<open>map\<close> and \<open>filter\<close> make new arrays. The objects in the arrays are
  never assigned to in either function and are kept as values; so are the arrays of
  strings and of sources, which are made inside the function.
\<close>

type_synonym addr = nat

type_synonym store = "Node list list"

definition alloc :: "Node list \<Rightarrow> store \<Rightarrow> addr \<times> store" where
  "alloc xs h = (length h, h @ [xs])"

definition push :: "addr \<Rightarrow> Node \<Rightarrow> store \<Rightarrow> store" where
  "push a x h = h[a := h ! a @ [x]]"

definition sortInPlace :: "addr \<Rightarrow> store \<Rightarrow> store" where
  "sortInPlace a h = h[a := sort_key lineKey (h ! a)]"

text \<open>The body of \<open>nodes.forEach\<close>; the map holds the addresses of the arrays.\<close>

definition groupStep_st ::
  "Node \<Rightarrow> (string \<times> addr) list \<times> store \<Rightarrow> (string \<times> addr) list \<times> store"
where
  "groupStep_st node st =
     (let fileMap = fst st; h = snd st
      in if truthyString (read (file_field (data node)))
         then (case read (file_field (data node)) of
                 None \<Rightarrow> (fileMap, h)
               | Some file' \<Rightarrow>
                   (let st' = (if \<not> mapHas fileMap file'
                               then (let new = alloc [] h
                                     in (mapSet fileMap file' (fst new), snd new))
                               else (fileMap, h))
                    in case mapGet (fst st') file' of
                         None \<Rightarrow> st'
                       | Some a \<Rightarrow> (fst st', push a node (snd st'))))
         else (fileMap, h))"

text \<open>The body of \<open>fileMap.forEach\<close>: the copy \<open>[...fileNodes]\<close> is a new array, and
  \<open>sort\<close> sorts that copy in place and returns it.\<close>

definition sourceStep_st ::
  "string \<times> addr \<Rightarrow> Source list \<times> store \<Rightarrow> Source list \<times> store"
where
  "sourceStep_st entry st =
     (let sources = fst st; h = snd st;
          filePath = fst entry;
          fileNodes = snd entry;
          copy = alloc (h ! fileNodes) h;
          h' = sortInPlace (fst copy) (snd copy);
          sortedNodes = fst copy;
          codeSnippets = filter (\<lambda>code. code \<noteq> [] \<and> length (trim code) > 0)
                           (map (\<lambda>node. codeSnippet (data node)) (h' ! sortedNodes))
      in if length codeSnippets > 0
         then (sources @ [\<lparr> src_file_path = filePath,
                            src_code = join [CHR 0x0A, CHR 0x0A] codeSnippets \<rparr>], h')
         else (sources, h'))"

text \<open>\<open>nodesRef\<close> is the address of the argument \<open>nodes\<close>. \<open>forEach\<close> visits the indices below the
  length the array has at the start and reads each element when it gets there.\<close>

definition extractSourcesFromNodes_st :: "addr \<Rightarrow> store \<Rightarrow> Source list \<times> store" where
  "extractSourcesFromNodes_st nodesRef h =
     (let grouped = fold (\<lambda>i st. groupStep_st (snd st ! nodesRef ! i) st)
                      [0..<length (h ! nodesRef)] ([], h);
          fileMap = fst grouped
      in fold sourceStep_st fileMap ([], snd grouped))"

text \<open>The argument of transformApiResponseToReactFlow as an object that holds the
  addresses of its two arrays, in a store of API arrays. The function calls \<open>map\<close> on both
  and writes to neither.\<close>

record ApiStore =
  apiNodeArrays :: "ApiNode list list"
  apiEdgeArrays :: "ApiEdge list list"

record ApiResponseRef =
  nodes_ref :: addr
  edges_ref :: addr
  ref_task_description :: "string option"

definition deref :: "ApiResponseRef \<Rightarrow> ApiStore \<Rightarrow> ApiControlFlowResponse" where
  "deref r s =
     \<lparr> api_nodes = apiNodeArrays s ! nodes_ref r,
       api_edges = apiEdgeArrays s ! edges_ref r,
       api_task_description = ref_task_description r \<rparr>"

definition transformApiResponseToReactFlow_st ::
  "ApiResponseRef \<Rightarrow> ApiStore \<Rightarrow> ControlFlowResponse \<times> ApiStore"
where
  "transformApiResponseToReactFlow_st apiResponse s =
     (let nodes' = map transformNode (apiNodeArrays s ! nodes_ref apiResponse);
          edges' = map transformEdge (apiEdgeArrays s ! edges_ref apiResponse)
      in (\<lparr> nodes = nodes', edges = edges',
            task_description = ref_task_description apiResponse \<rparr>, s))"

text \<open>The abstraction of a map of addresses to the map of arrays it stands for, and the
  invariant of the first loop with respect to the store \<open>h0\<close> at the call: the store only
  grew and the map holds distinct keys and distinct addresses of new arrays.\<close>

definition contents :: "(string \<times> addr) list \<Rightarrow> store \<Rightarrow> (string \<times> Node list) list" where
  "contents fileMap h = map (\<lambda>e. (fst e, h ! snd e)) fileMap"

definition grouping :: "store \<Rightarrow> (string \<times> addr) list \<Rightarrow> store \<Rightarrow> bool" where
  "grouping h0 fileMap h \<longleftrightarrow>
     length h0 \<le> length h \<and> take (length h0) h = h0
     \<and> list_all (\<lambda>a. length h0 \<le> a \<and> a < length h) (map snd fileMap)
     \<and> distinct (map snd fileMap) \<and> distinct (map fst fileMap)"

text \<open>The sample response of the transform, held in a store.\<close>

definition sampleApiStore :: ApiStore where
  "sampleApiStore =
     \<lparr> apiNodeArrays = [api_nodes sampleApiResponse],
       apiEdgeArrays = [[], api_edges sampleApiResponse] \<rparr>"

definition sampleApiRef :: ApiResponseRef where
  "sampleApiRef = \<lparr> nodes_ref = 0, edges_ref = 1, ref_task_description = None \<rparr>"

section \<open>Properties of the transform\<close>

lemma split_length: "length (split sep s) = Suc (length (filter (\<lambda>c. c = sep) s))"
  by (induction s) (auto split: list.splits)



text \<open>
  C1. transformApiResponseToReactFlow emits exactly one client node per API node, in
  order and with the API node's id, so no node is omitted; the status of every emitted
  node is \<open>pending\<close>; and the emitted node list is empty only when the API node list is.
\<close>

theorem transform_nodes_all_pending:
  "length (nodes (transformApiResponseToReactFlow r)) = length (api_nodes r)
   \<and> map node_id (nodes (transformApiResponseToReactFlow r)) = map api_id (api_nodes r)
   \<and> (\<forall>n \<in> set (nodes (transformApiResponseToReactFlow r)). status (data n) = Pending)
   \<and> (nodes (transformApiResponseToReactFlow r) = [] \<longleftrightarrow> api_nodes r = [])"
  by (auto simp: transformApiResponseToReactFlow_def transformNode_def Let_def
           split: prod.splits)

theorem transform_nodes_all_pending_witness:
  "length (nodes (transformApiResponseToReactFlow sampleApiResponse)) = 2
   \<and> map node_id (nodes (transformApiResponseToReactFlow sampleApiResponse)) = [''b1'', ''b2'']
   \<and> map (\<lambda>n. status (data n)) (nodes (transformApiResponseToReactFlow sampleApiResponse))
       = [Pending, Pending]
   \<and> nodes (transformApiResponseToReactFlow sampleApiResponse) \<noteq> []"
proof -
  have n: "api_nodes sampleApiResponse \<noteq> []" "length (api_nodes sampleApiResponse) = 2"
    "map api_id (api_nodes sampleApiResponse) = [''b1'', ''b2'']"
    by (simp_all add: sampleApiResponse_def)
  note t = transform_nodes_all_pending [of sampleApiResponse]
  have "map (\<lambda>n. status (data n)) (nodes (transformApiResponseToReactFlow sampleApiResponse))
        = map (\<lambda>n. Pending) (nodes (transformApiResponseToReactFlow sampleApiResponse))"
    using t by simp
  then have "map (\<lambda>n. status (data n)) (nodes (transformApiResponseToReactFlow sampleApiResponse))
        = replicate (length (nodes (transformApiResponseToReactFlow sampleApiResponse))) Pending"
    by (simp only: map_replicate_const)
  then show ?thesis using t n by (simp add: numeral_2_eq_2)
qed






lemma bitLength_bound: "n < 2 ^ k \<Longrightarrow> bitLength n \<le> k"
proof (induction k arbitrary: n)
  case 0
  then show ?case by (simp add: bitLength.simps)
next
  case (Suc k)
  show ?case
  proof (cases "n = 0")
    case True
    then show ?thesis by (simp add: bitLength.simps)
  next
    case False
    from Suc.prems have "n div 2 < 2 ^ k"
      by simp
    then have "bitLength (n div 2) \<le> k"
      by (rule Suc.IH)
    with False show ?thesis
      by (subst bitLength.simps) simp
  qed
qed

lemma numberValue_safe: "n < 2 ^ 53 \<Longrightarrow> numberValue n = n"
  using bitLength_bound [of n 53] by (simp add: numberValue_def)

lemma numberValue_rounds: "numberValue 9007199254740993 = 9007199254740992"
  by (simp add: numberValue_def bitLength.simps Let_def)




lemma parseInt_sample_ranges:
  "parseInt ''15'' = Some 15" "parseInt ''24'' = Some 24" "parseInt ''1'' = Some 1"
  "parseInt ''9007199254740993'' = Some 9007199254740992"
  by (simp_all add: parseInt_def isStrWhiteSpaceChar_def isDigit_def mathInt_def
        digitValue_def numberValue_safe numberValue_rounds Let_def)



text \<open>
  C6. The transformed edge list has exactly one edge per API edge, in order; each keeps
  the id of its API edge, its \<open>source\<close> is the API edge's \<open>from_node\<close>, its \<open>target\<close> is
  \<open>to_node\<close> and its \<open>label\<close> is \<open>relationship_type\<close>, without a label when the API edge
  carries no relationship type.
\<close>

theorem transform_edges_wire_shape:
  "length (edges (transformApiResponseToReactFlow r)) = length (api_edges r)
   \<and> (\<forall>i < length (api_edges r).
         edge_id (edges (transformApiResponseToReactFlow r) ! i) = api_edge_id (api_edges r ! i)
       \<and> source (edges (transformApiResponseToReactFlow r) ! i) = from_node (api_edges r ! i)
       \<and> target (edges (transformApiResponseToReactFlow r) ! i) = to_node (api_edges r ! i)
       \<and> label (edges (transformApiResponseToReactFlow r) ! i) = relationship_type (api_edges r ! i))"
  by (simp add: transformApiResponseToReactFlow_def transformEdge_def)

theorem transform_edges_wire_shape_witness:
  "length (edges (transformApiResponseToReactFlow sampleApiResponse)) = 2
   \<and> source (edges (transformApiResponseToReactFlow sampleApiResponse) ! 0) = ''b1''
   \<and> target (edges (transformApiResponseToReactFlow sampleApiResponse) ! 0) = ''b2''
   \<and> label (edges (transformApiResponseToReactFlow sampleApiResponse) ! 0) = Some ''calls''
   \<and> label (edges (transformApiResponseToReactFlow sampleApiResponse) ! 1) = None"
  using transform_edges_wire_shape [of sampleApiResponse]
  by (simp add: sampleApiResponse_def)

section \<open>Properties of convertNodesToBlocks and mergeNodesWithAnalysis\<close>

lemma truthyString_iff: "truthyString v \<longleftrightarrow> (\<exists>f. v = Some f \<and> f \<noteq> [])"
  by (cases v) (simp_all add: truthyString_def)

lemma orEmpty_Some: "orEmpty (Some s) = s"
  by (simp add: orEmpty_def)

lemma orZero_Some: "orZero (Some n) = n"
  by (simp add: orZero_def)

text \<open>
  C9. convertNodesToBlocks returns, in input order, exactly the nodes whose data has a
  truthy \<open>file\<close> and a defined \<open>lineStart\<close> and \<open>lineEnd\<close>, each as the block made of the
  node's id and these three values; all other nodes are left out, so the result is never
  longer than the input.
\<close>

theorem convertNodesToBlocks_spec:
  "map (\<lambda>b. (block_id b, Some (file_path b), Some (start_line b), Some (end_line b)))
       (convertNodesToBlocks ns)
   = map (\<lambda>n. (node_id n, read (file_field (data n)), read (lineStart (data n)),
                read (lineEnd (data n))))
       (filter (\<lambda>n. (\<exists>f. read (file_field (data n)) = Some f \<and> f \<noteq> [])
                    \<and> read (lineStart (data n)) \<noteq> None
                    \<and> read (lineEnd (data n)) \<noteq> None) ns)
   \<and> length (convertNodesToBlocks ns) \<le> length ns"
proof
  show "map (\<lambda>b. (block_id b, Some (file_path b), Some (start_line b), Some (end_line b)))
       (convertNodesToBlocks ns)
   = map (\<lambda>n. (node_id n, read (file_field (data n)), read (lineStart (data n)),
                read (lineEnd (data n))))
       (filter (\<lambda>n. (\<exists>f. read (file_field (data n)) = Some f \<and> f \<noteq> [])
                    \<and> read (lineStart (data n)) \<noteq> None
                    \<and> read (lineEnd (data n)) \<noteq> None) ns)"
    unfolding convertNodesToBlocks_def truthyString_iff map_map
    by (rule map_cong [OF refl]) (auto simp: orEmpty_Some orZero_Some)
  show "length (convertNodesToBlocks ns) \<le> length ns"
    by (simp add: convertNodesToBlocks_def)
qed

lemma find_absent: "k \<notin> node_id ` set us \<Longrightarrow> find (\<lambda>v. node_id v = k) us = None"
  by (induction us) auto

lemma updateMapOf_fold:
  "distinct (map node_id us) \<Longrightarrow>
   fold (\<lambda>node m. m(node_id node \<mapsto> node)) us m k =
     (case find (\<lambda>u. node_id u = k) us of Some u \<Rightarrow> Some u | None \<Rightarrow> m k)"
proof (induction us arbitrary: m)
  case Nil
  then show ?case by simp
next
  case (Cons u us)
  then have "find (\<lambda>v. node_id v = node_id u) us = None"
    by (simp add: find_absent)
  with Cons show ?case by (simp split: option.splits)
qed

lemma updateMapOf_find:
  "distinct (map node_id us) \<Longrightarrow> updateMapOf us k = find (\<lambda>u. node_id u = k) us"
  by (simp add: updateMapOf_def updateMapOf_fold split: option.splits)

lemma appendMissing_newNodes:
  "fst (appendMissing us (acc, S)) = acc @ newNodes S us"
  unfolding appendMissing_def
  by (induction us arbitrary: acc S) auto

lemma newNodes_ids: "node_id ` set (newNodes S us) = node_id ` set us - S"
  by (induction S us rule: newNodes.induct) auto

lemma newNodes_distinct: "distinct (map node_id (newNodes S us))"
  by (induction S us rule: newNodes.induct) (simp_all add: newNodes_ids)

lemma newNodes_filter:
  "distinct (map node_id us) \<Longrightarrow> newNodes S us = filter (\<lambda>u. node_id u \<notin> S) us"
proof (induction S us rule: newNodes.induct)
  case (1 S)
  then show ?case by simp
next
  case (2 S u us)
  from "2.prems" have "node_id u \<notin> node_id ` set us"
    by simp
  then have "\<forall>v \<in> set us. node_id v \<noteq> node_id u"
    by (metis imageI)
  then have "filter (\<lambda>v. node_id v \<notin> insert (node_id u) S) us = filter (\<lambda>v. node_id v \<notin> S) us"
    by (auto intro!: filter_cong)
  with 2 show ?case by simp
qed

lemma spreadData_keys:
  "blockId (spreadData c u) = blockId u"
  "blockName (spreadData c u) = blockName u"
  "codeSnippet (spreadData c u) = codeSnippet u"
  "status (spreadData c u) = status u"
  "file_field (spreadData c u) = (if file_field u = Absent then file_field c else file_field u)"
  "lineStart (spreadData c u) = (if lineStart u = Absent then lineStart c else lineStart u)"
  "lineEnd (spreadData c u) = (if lineEnd u = Absent then lineEnd c else lineEnd u)"
  "executionCount (spreadData c u) =
     (if executionCount u = Absent then executionCount c else executionCount u)"
  by (simp_all add: spreadData_def overrideField_def split: field.splits)

lemma merged_ids:
  "map node_id (map (\<lambda>node. case m (node_id node) of
                             None \<Rightarrow> node
                           | Some update \<Rightarrow> node\<lparr> data := spreadData (data node) (data update) \<rparr>)
                  current) = map node_id current"
  by (induction current) (auto split: option.splits)

lemma mergeNodesWithAnalysis_unfold:
  "mergeNodesWithAnalysis current (Some us) =
     map (\<lambda>node. case updateMapOf us (node_id node) of
                    None \<Rightarrow> node
                  | Some update \<Rightarrow> node\<lparr> data := spreadData (data node) (data update) \<rparr>)
         current
     @ newNodes (set (map node_id current)) us"
proof (cases us)
  case Nil
  then show ?thesis
    by (simp add: mergeNodesWithAnalysis_def updateMapOf_def)
next
  case (Cons u us')
  then show ?thesis
    by (simp only: mergeNodesWithAnalysis_def Let_def appendMissing_newNodes) simp
qed

lemma mergeNodesWithAnalysis_ids:
  "set (map node_id (mergeNodesWithAnalysis current (Some us)))
     = set (map node_id current) \<union> set (map node_id us)"
proof -
  have "set (map node_id (mergeNodesWithAnalysis current (Some us)))
        = set (map node_id current) \<union> node_id ` set (newNodes (set (map node_id current)) us)"
    unfolding mergeNodesWithAnalysis_unfold map_append set_append merged_ids
    by simp
  then show ?thesis
    by (auto simp: newNodes_ids)
qed

text \<open>
  C8. For node lists \<open>current\<close> and \<open>updates\<close> whose ids are pairwise distinct, the result
  of mergeNodesWithAnalysis holds every id of \<open>current\<close> or \<open>updates\<close> exactly once; it is
  \<open>current\<close> in its order, where a node whose id is not in \<open>updates\<close> is unchanged and a
  node whose id is in \<open>updates\<close> keeps its own fields while its data is the spread of its
  data and the update's data (the update's entries override key by key), followed by the
  nodes of \<open>updates\<close> whose id is not in \<open>current\<close>; and when \<open>updates\<close> is \<open>undefined\<close> or
  empty the result is \<open>current\<close>.
\<close>

theorem mergeNodesWithAnalysis_spec:
  assumes "distinct (map node_id current)" and "distinct (map node_id updates)"
  shows "distinct (map node_id (mergeNodesWithAnalysis current (Some updates)))
    \<and> set (map node_id (mergeNodesWithAnalysis current (Some updates)))
        = set (map node_id current) \<union> set (map node_id updates)
    \<and> mergeNodesWithAnalysis current (Some updates)
        = map (\<lambda>node. case find (\<lambda>u. node_id u = node_id node) updates of
                         None \<Rightarrow> node
                       | Some update \<Rightarrow> node\<lparr> data := spreadData (data node) (data update) \<rparr>)
              current
          @ filter (\<lambda>u. node_id u \<notin> set (map node_id current)) updates
    \<and> mergeNodesWithAnalysis current None = current
    \<and> mergeNodesWithAnalysis current (Some []) = current"
proof -
  have d: "distinct (map node_id (mergeNodesWithAnalysis current (Some updates)))"
    unfolding mergeNodesWithAnalysis_unfold map_append merged_ids
    using assms(1) by (auto simp: newNodes_distinct newNodes_ids)
  have u: "mergeNodesWithAnalysis current (Some updates)
        = map (\<lambda>node. case find (\<lambda>u. node_id u = node_id node) updates of
                         None \<Rightarrow> node
                       | Some update \<Rightarrow> node\<lparr> data := spreadData (data node) (data update) \<rparr>)
              current
          @ filter (\<lambda>u. node_id u \<notin> set (map node_id current)) updates"
    unfolding mergeNodesWithAnalysis_unfold
    using assms(2) by (simp add: updateMapOf_find newNodes_filter)
  have n: "mergeNodesWithAnalysis current None = current"
    "mergeNodesWithAnalysis current (Some []) = current"
    by (simp_all add: mergeNodesWithAnalysis_def)
  from d u n mergeNodesWithAnalysis_ids [of current updates] show ?thesis
    by blast
qed

lemma sampleCurrent_eval:
  "sampleCurrent =
     [\<lparr> node_id = ''b1'', node_type = Some ''cfgNode'',
        position = \<lparr> pos_x = 0, pos_y = 0 \<rparr>,
        data = \<lparr> blockId = ''b1'', blockName = ''b1'', codeSnippet = ''x = 1'',
                 status = Pending, file_field = Value ''a.py'', lineStart = Value 15,
                 lineEnd = Value 24, executionCount = Absent \<rparr> \<rparr>,
      \<lparr> node_id = ''b2'', node_type = Some ''cfgNode'',
        position = \<lparr> pos_x = 0, pos_y = 0 \<rparr>,
        data = \<lparr> blockId = ''b2'', blockName = ''b2'', codeSnippet = ''return x'',
                 status = Pending, file_field = Undefined, lineStart = Undefined,
                 lineEnd = Undefined, executionCount = Absent \<rparr> \<rparr>]"
  by (simp add: sampleCurrent_def sampleApiResponse_def transformApiResponseToReactFlow_def
        transformNode_def parseLineRange_def parseInt_sample_ranges Let_def)

theorem mergeNodesWithAnalysis_spec_witness:
  "distinct (map node_id sampleCurrent) \<and> distinct (map node_id sampleUpdates)
   \<and> map node_id (mergeNodesWithAnalysis sampleCurrent (Some sampleUpdates))
       = [''b1'', ''b2'', ''b3'']
   \<and> mergeNodesWithAnalysis sampleCurrent (Some sampleUpdates)
       = [sampleCurrent ! 0,
          (sampleCurrent ! 1)\<lparr> data := \<lparr> blockId = ''b2'', blockName = ''Return'',
                 codeSnippet = ''return x'', status = Failed, file_field = Value ''a.py'',
                 lineStart = Undefined, lineEnd = Undefined, executionCount = Value 1 \<rparr> \<rparr>,
          sampleUpdates ! 1]"
proof -
  have dc: "distinct (map node_id sampleCurrent)"
    by (simp add: sampleCurrent_eval)
  have du: "distinct (map node_id sampleUpdates)"
    by (simp add: sampleUpdates_def)
  note t = mergeNodesWithAnalysis_spec [OF dc du]
  have m: "mergeNodesWithAnalysis sampleCurrent (Some sampleUpdates)
       = [sampleCurrent ! 0,
          (sampleCurrent ! 1)\<lparr> data := \<lparr> blockId = ''b2'', blockName = ''Return'',
                 codeSnippet = ''return x'', status = Failed, file_field = Value ''a.py'',
                 lineStart = Undefined, lineEnd = Undefined, executionCount = Value 1 \<rparr> \<rparr>,
          sampleUpdates ! 1]"
    unfolding t [THEN conjunct2, THEN conjunct2, THEN conjunct1]
    by (simp add: sampleCurrent_eval sampleUpdates_def spreadData_def overrideField_def)
  have "map node_id (mergeNodesWithAnalysis sampleCurrent (Some sampleUpdates))
       = [''b1'', ''b2'', ''b3'']"
    unfolding m by (simp add: sampleCurrent_eval sampleUpdates_def)
  with dc du m show ?thesis by simp
qed


lemma referentiallyComplete_mono:
  "set (map node_id ns) \<subseteq> set (map node_id ns') \<Longrightarrow>
   referentiallyComplete ns es ps \<Longrightarrow> referentiallyComplete ns' es ps"
  unfolding referentiallyComplete_def by blast

lemma mergeNodesWithAnalysis_keeps_ids:
  "set (map node_id current) \<subseteq> set (map node_id (mergeNodesWithAnalysis current updates))"
proof (cases updates)
  case None
  then show ?thesis by (simp add: mergeNodesWithAnalysis_def)
next
  case (Some us)
  then show ?thesis
    unfolding Some mergeNodesWithAnalysis_ids by blast
qed

text \<open>
  C2. The mock payload is referentially complete: every block id that an edge of
  \<open>initialEdges\<close> names as source or target and every block id that a problem of
  \<open>mockProblems\<close> names is the id of a node of \<open>initialNodes\<close> (in both revisions of the
  mock data). mergeNodesWithAnalysis keeps this: edges and problems that are complete for
  the current nodes, or for the update nodes, are complete for the merged node list.
\<close>

theorem payload_referentially_complete:
  "referentiallyComplete initialNodes initialEdges mockProblems
   \<and> referentiallyComplete initialNodes_counter initialEdges_counter mockProblems_counter
   \<and> (\<forall>current updates es ps.
         referentiallyComplete current es ps
         \<longrightarrow> referentiallyComplete (mergeNodesWithAnalysis current updates) es ps)
   \<and> (\<forall>current us es ps.
         referentiallyComplete us es ps
         \<longrightarrow> referentiallyComplete (mergeNodesWithAnalysis current (Some us)) es ps)"
proof -
  have m1: "referentiallyComplete initialNodes initialEdges mockProblems"
    by (simp add: referentiallyComplete_def initialNodes_def initialEdges_def mockProblems_def)
  have m2: "referentiallyComplete initialNodes_counter initialEdges_counter mockProblems_counter"
    by (simp add: referentiallyComplete_def initialNodes_counter_def initialEdges_counter_def
          mockProblems_counter_def)
  have k: "\<And>current updates es ps. referentiallyComplete current es ps
         \<Longrightarrow> referentiallyComplete (mergeNodesWithAnalysis current updates) es ps"
    by (rule referentiallyComplete_mono [OF mergeNodesWithAnalysis_keeps_ids])
  have u: "\<And>current us es ps. referentiallyComplete us es ps
         \<Longrightarrow> referentiallyComplete (mergeNodesWithAnalysis current (Some us)) es ps"
    by (rule referentiallyComplete_mono) (simp_all only: mergeNodesWithAnalysis_ids Un_upper2)
  from m1 m2 k u show ?thesis by blast
qed

theorem payload_referentially_complete_witness:
  "referentiallyComplete (mergeNodesWithAnalysis initialNodes (Some sampleUpdates))
     initialEdges mockProblems
   \<and> referentiallyComplete (mergeNodesWithAnalysis initialNodes (Some initialNodes_counter))
     initialEdges_counter mockProblems_counter"
  using payload_referentially_complete by blast

section \<open>Properties of extractSourcesFromNodes\<close>

lemma map_of_mapSet: "map_of (mapSet m k v) = (map_of m)(k \<mapsto> v)"
  by (induction m k v rule: mapSet.induct) auto

lemma keys_mapSet:
  "map fst (mapSet m k v) = (if k \<in> set (map fst m) then map fst m else map fst m @ [k])"
  by (induction m k v rule: mapSet.induct) auto

lemma mapSet_twice: "mapSet (mapSet m k v) k v' = mapSet m k v'"
  by (induction m k v rule: mapSet.induct) auto

lemma groupKey_Some: "groupKey n = Some f \<longleftrightarrow> read (file_field (data n)) = Some f \<and> f \<noteq> []"
  by (auto simp: groupKey_def truthyString_def split: option.splits)

lemma groupStep_simp:
  "groupStep n m =
     (case groupKey n of
        None \<Rightarrow> m
      | Some f \<Rightarrow> mapSet m f ((case map_of m f of None \<Rightarrow> [] | Some xs \<Rightarrow> xs) @ [n]))"
proof (cases "groupKey n")
  case None
  then show ?thesis
    by (auto simp: groupStep_def groupKey_def split: option.splits if_splits)
next
  case (Some f)
  then have r: "read (file_field (data n)) = Some f" "truthyString (read (file_field (data n)))"
    by (auto simp: groupKey_def split: if_splits)
  show ?thesis
  proof (cases "map_of m f")
    case None
    then have "\<not> mapHas m f"
      by (simp add: mapHas_def map_of_eq_None_iff)
    with None Some r show ?thesis
      by (simp add: groupStep_def mapGet_def map_of_mapSet mapSet_twice)
  next
    case (Some xs)
    then have "mapHas m f"
      unfolding mapHas_def by (metis map_of_eq_None_iff option.distinct(1) set_map)
    with Some \<open>groupKey n = Some f\<close> r show ?thesis
      by (simp add: groupStep_def mapGet_def)
  qed
qed

lemma keys_groupStep:
  "set (map fst (groupStep n m)) = set (map fst m) \<union> set_option (groupKey n)"
  by (cases "groupKey n") (auto simp: groupStep_simp keys_mapSet)

lemma distinct_groupStep:
  "distinct (map fst m) \<Longrightarrow> distinct (map fst (groupStep n m))"
  by (cases "groupKey n") (auto simp: groupStep_simp keys_mapSet)

lemma distinct_fold_groupStep:
  "distinct (map fst m) \<Longrightarrow> distinct (map fst (fold groupStep ns m))"
  by (induction ns arbitrary: m) (simp_all add: distinct_groupStep)

lemma map_of_groupStep:
  "map_of (groupStep n m) f =
     (if groupKey n = Some f
      then Some ((case map_of m f of None \<Rightarrow> [] | Some xs \<Rightarrow> xs) @ [n])
      else map_of m f)"
  by (cases "groupKey n") (auto simp: groupStep_simp map_of_mapSet)

lemma map_of_fold_groupStep:
  "map_of (fold groupStep ns m) f =
     (if map_of m f \<noteq> None \<or> (\<exists>n \<in> set ns. groupKey n = Some f)
      then Some ((case map_of m f of None \<Rightarrow> [] | Some xs \<Rightarrow> xs)
                 @ filter (\<lambda>n. groupKey n = Some f) ns)
      else None)"
proof (induction ns arbitrary: m)
  case Nil
  then show ?case by (auto split: option.splits)
next
  case (Cons n ns)
  show ?case
    by (simp only: fold_simps Cons.IH map_of_groupStep)
       (auto split: option.splits)
qed


lemma trim_empty_iff: "trim s = [] \<longleftrightarrow> (\<forall>c \<in> set s. isStrWhiteSpaceChar c)"
proof -
  have "trim s = [] \<longleftrightarrow> (\<forall>c \<in> set (dropWhile isStrWhiteSpaceChar s). isStrWhiteSpaceChar c)"
    by (simp add: trim_def dropWhile_eq_Nil_conv)
  also have "\<dots> \<longleftrightarrow> dropWhile isStrWhiteSpaceChar s = []"
  proof
    assume a: "\<forall>c \<in> set (dropWhile isStrWhiteSpaceChar s). isStrWhiteSpaceChar c"
    show "dropWhile isStrWhiteSpaceChar s = []"
    proof (rule ccontr)
      assume n: "dropWhile isStrWhiteSpaceChar s \<noteq> []"
      then have "\<not> isStrWhiteSpaceChar (hd (dropWhile isStrWhiteSpaceChar s))"
        by (rule hd_dropWhile)
      moreover have "hd (dropWhile isStrWhiteSpaceChar s) \<in> set (dropWhile isStrWhiteSpaceChar s)"
        using n by (rule hd_in_set)
      ultimately show False using a by blast
    qed
  next
    assume "dropWhile isStrWhiteSpaceChar s = []"
    then show "\<forall>c \<in> set (dropWhile isStrWhiteSpaceChar s). isStrWhiteSpaceChar c"
      by (metis empty_iff empty_set)
  qed
  also have "\<dots> \<longleftrightarrow> (\<forall>c \<in> set s. isStrWhiteSpaceChar c)"
    by (simp add: dropWhile_eq_Nil_conv)
  finally show ?thesis .
qed

lemma hasContent_iff: "hasContent code \<longleftrightarrow> code \<noteq> [] \<and> length (trim code) > 0"
  by (auto simp: hasContent_def trim_empty_iff)

lemma snippetsOf_alt:
  "snippetsOf xs = filter hasContent (map (\<lambda>node. codeSnippet (data node)) (sort_key lineKey xs))"
  unfolding snippetsOf_def hasContent_iff ..

lemma snippetsOf_nonempty:
  "snippetsOf xs \<noteq> [] \<longleftrightarrow> (\<exists>n \<in> set xs. hasContent (codeSnippet (data n)))"
  by (auto simp: snippetsOf_alt filter_empty_conv)

lemma sourceStep_simp:
  "sourceStep e acc =
     acc @ (if snippetsOf (snd e) \<noteq> []
            then [\<lparr> src_file_path = fst e,
                     src_code = join [CHR 0x0A, CHR 0x0A] (snippetsOf (snd e)) \<rparr>]
            else [])"
  by (simp add: sourceStep_def snippetsOf_def Let_def)

lemma fold_sourceStep:
  "fold sourceStep es acc =
     acc @ map (\<lambda>e. \<lparr> src_file_path = fst e,
                       src_code = join [CHR 0x0A, CHR 0x0A] (snippetsOf (snd e)) \<rparr>)
             (filter (\<lambda>e. snippetsOf (snd e) \<noteq> []) es)"
  by (induction es arbitrary: acc) (simp_all add: sourceStep_simp)

lemma extractSourcesFromNodes_unfold:
  "extractSourcesFromNodes ns =
     map (\<lambda>e. \<lparr> src_file_path = fst e,
                 src_code = join [CHR 0x0A, CHR 0x0A] (snippetsOf (snd e)) \<rparr>)
       (filter (\<lambda>e. snippetsOf (snd e) \<noteq> []) (fold groupStep ns []))"
  by (simp add: extractSourcesFromNodes_def fold_sourceStep)

lemma fileMap_entry:
  "(f, xs) \<in> set (fold groupStep ns []) \<longleftrightarrow>
     (\<exists>n \<in> set ns. groupKey n = Some f) \<and> xs = filter (\<lambda>n. groupKey n = Some f) ns"
proof -
  have "(f, xs) \<in> set (fold groupStep ns []) \<longleftrightarrow> map_of (fold groupStep ns []) f = Some xs"
    by (simp add: distinct_fold_groupStep)
  then show ?thesis
    by (auto simp: map_of_fold_groupStep)
qed

lemma filter_groupKey:
  "f \<noteq> [] \<Longrightarrow>
   filter (\<lambda>n. groupKey n = Some f) ns = filter (\<lambda>n. read (file_field (data n)) = Some f) ns"
  by (simp add: groupKey_Some)

lemma sampleSourceNodes_sources:
  "extractSourcesFromNodes sampleSourceNodes
     = [\<lparr> src_file_path = ''a.py'',
          src_code = ''y = -y'' @ [CHR 0x0A, CHR 0x0A] @ ''return y'' \<rparr>]"
  by (simp add: extractSourcesFromNodes_def sampleSourceNodes_def groupStep_def sourceStep_def
        truthyString_def mapHas_def mapGet_def lineKey_def orZero_def trim_def
        isStrWhiteSpaceChar_def Let_def)

text \<open>
  C10. extractSourcesFromNodes returns at most one source per file; a file name is in the
  result exactly when it is not empty and some node with that file has a snippet with
  content other than white space; and the code of each source is the join, with one blank
  line between them, of the snippets with content of the nodes of its file, stably sorted
  by ascending \<open>lineStart\<close>, where a missing \<open>lineStart\<close> counts as 0. A node without a
  file, or with the empty string as its file, adds nothing.
\<close>

theorem extractSourcesFromNodes_spec:
  "distinct (map src_file_path (extractSourcesFromNodes ns))
   \<and> (\<forall>f. f \<in> set (map src_file_path (extractSourcesFromNodes ns)) \<longleftrightarrow>
          f \<noteq> [] \<and> (\<exists>n \<in> set ns. read (file_field (data n)) = Some f
                                 \<and> hasContent (codeSnippet (data n))))
   \<and> (\<forall>s \<in> set (extractSourcesFromNodes ns).
          src_code s =
            join [CHR 0x0A, CHR 0x0A]
              (filter hasContent
                 (map (\<lambda>n. codeSnippet (data n))
                    (sort_key lineKey
                       (filter (\<lambda>n. read (file_field (data n)) = Some (src_file_path s)) ns)))))"
proof (intro conjI allI ballI)
  have "map src_file_path (extractSourcesFromNodes ns)
        = map fst (filter (\<lambda>e. snippetsOf (snd e) \<noteq> []) (fold groupStep ns []))"
    by (simp add: extractSourcesFromNodes_unfold comp_def)
  moreover have "distinct (map fst (fold groupStep ns []))"
    by (simp add: distinct_fold_groupStep)
  ultimately show "distinct (map src_file_path (extractSourcesFromNodes ns))"
    by (simp add: distinct_map_filter)
next
  fix f
  have "f \<in> set (map src_file_path (extractSourcesFromNodes ns)) \<longleftrightarrow>
        (\<exists>xs. (f, xs) \<in> set (fold groupStep ns []) \<and> snippetsOf xs \<noteq> [])"
    by (force simp: extractSourcesFromNodes_unfold)
  also have "\<dots> \<longleftrightarrow> (\<exists>n \<in> set ns. groupKey n = Some f)
                    \<and> (\<exists>n \<in> set ns. groupKey n = Some f \<and> hasContent (codeSnippet (data n)))"
    by (auto simp: fileMap_entry snippetsOf_nonempty)
  also have "\<dots> \<longleftrightarrow> f \<noteq> [] \<and> (\<exists>n \<in> set ns. read (file_field (data n)) = Some f
                                 \<and> hasContent (codeSnippet (data n)))"
    by (auto simp: groupKey_Some)
  finally show "f \<in> set (map src_file_path (extractSourcesFromNodes ns)) \<longleftrightarrow>
          f \<noteq> [] \<and> (\<exists>n \<in> set ns. read (file_field (data n)) = Some f
                                 \<and> hasContent (codeSnippet (data n)))" .
next
  fix s
  assume "s \<in> set (extractSourcesFromNodes ns)"
  then obtain f xs where e: "(f, xs) \<in> set (fold groupStep ns [])"
    and s: "s = \<lparr> src_file_path = f, src_code = join [CHR 0x0A, CHR 0x0A] (snippetsOf xs) \<rparr>"
    by (auto simp: extractSourcesFromNodes_unfold)
  from e have xs: "xs = filter (\<lambda>n. groupKey n = Some f) ns" and "\<exists>n \<in> set ns. groupKey n = Some f"
    by (simp_all add: fileMap_entry)
  then have "f \<noteq> []"
    by (auto simp: groupKey_Some)
  then have "xs = filter (\<lambda>n. read (file_field (data n)) = Some f) ns"
    using xs by (simp add: filter_groupKey)
  then show "src_code s =
            join [CHR 0x0A, CHR 0x0A]
              (filter hasContent
                 (map (\<lambda>n. codeSnippet (data n))
                    (sort_key lineKey
                       (filter (\<lambda>n. read (file_field (data n)) = Some (src_file_path s)) ns))))"
    by (simp add: s snippetsOf_alt)
qed

theorem extractSourcesFromNodes_spec_witness:
  "extractSourcesFromNodes sampleSourceNodes
     = [\<lparr> src_file_path = ''a.py'',
          src_code = ''y = -y'' @ [CHR 0x0A, CHR 0x0A] @ ''return y'' \<rparr>]
   \<and> ''a.py'' \<in> set (map src_file_path (extractSourcesFromNodes sampleSourceNodes))
   \<and> ''b.py'' \<notin> set (map src_file_path (extractSourcesFromNodes sampleSourceNodes))
   \<and> distinct (map src_file_path (extractSourcesFromNodes sampleSourceNodes))"
proof -
  note ev = sampleSourceNodes_sources
  note t = extractSourcesFromNodes_spec [of sampleSourceNodes]
  have a: "''a.py'' \<in> set (map src_file_path (extractSourcesFromNodes sampleSourceNodes))"
    unfolding t [THEN conjunct2, THEN conjunct1, rule_format]
    by (simp add: sampleSourceNodes_def hasContent_def isStrWhiteSpaceChar_def)
  have b: "''b.py'' \<notin> set (map src_file_path (extractSourcesFromNodes sampleSourceNodes))"
    unfolding t [THEN conjunct2, THEN conjunct1, rule_format]
    by (simp add: sampleSourceNodes_def hasContent_def isStrWhiteSpaceChar_def)
  from ev a b t show ?thesis by blast
qed

section \<open>Earliest failure: FailureLocator and handleNodeClick\<close>

lemma find_filter: "find P (filter Q xs) = find (\<lambda>x. Q x \<and> P x) xs"
  by (induction xs) auto

lemma find_first_index:
  "\<exists>x \<in> set xs. P x \<Longrightarrow>
   \<exists>i < length xs. find P xs = Some (xs ! i) \<and> P (xs ! i) \<and> (\<forall>j < i. \<not> P (xs ! j))"
proof -
  assume "\<exists>x \<in> set xs. P x"
  then obtain x where "find P xs = Some x"
    by (cases "find P xs") (auto simp: find_None_iff)
  then show ?thesis
    unfolding find_Some_iff by blast
qed

lemma handleNodeClick_first_failed:
  assumes "\<exists>s \<in> set steps. step_blockId s = nodeId \<and> step_status s = Failed"
  shows "\<exists>i < length steps.
           step_blockId (steps ! i) = nodeId \<and> step_status (steps ! i) = Failed
         \<and> activeStepId (handleNodeClick steps nodeId sel) = Some (step_id (steps ! i))
         \<and> (\<forall>j < i. \<not> (step_blockId (steps ! j) = nodeId \<and> step_status (steps ! j) = Failed))"
proof -
  from find_first_index [OF assms]
  obtain i where i: "i < length steps"
    and f: "find (\<lambda>s. step_blockId s = nodeId \<and> step_status s = Failed) steps = Some (steps ! i)"
    and p: "step_blockId (steps ! i) = nodeId \<and> step_status (steps ! i) = Failed"
    and m: "\<forall>j < i. \<not> (step_blockId (steps ! j) = nodeId \<and> step_status (steps ! j) = Failed)"
    by blast
  from assms have ne: "filter (\<lambda>s. step_blockId s = nodeId) steps \<noteq> []"
    by (auto simp: filter_empty_conv)
  have "activeStepId (handleNodeClick steps nodeId sel) = Some (step_id (steps ! i))"
    using ne f by (simp add: handleNodeClick_def Let_def find_filter)
  with i p m show ?thesis by blast
qed

lemma locateFailure_step:
  assumes "fn \<in> set (locateFailure check oracleVar True failing)"
  shows "fn_step fn < length failing \<and> check (fn_step fn) (failing ! fn_step fn) \<noteq> []
         \<and> fn_block fn = ev_block (failing ! fn_step fn)
         \<and> (\<forall>j < fn_step fn. check j (failing ! j) = [])"
proof (cases "find (\<lambda>i. check i (failing ! i) \<noteq> []) [0..<length failing]")
  case None
  with assms show ?thesis by (simp add: locateFailure_def)
next
  case (Some i)
  with assms have s: "fn_step fn = i" and b: "fn_block fn = ev_block (failing ! i)"
    by (auto simp: locateFailure_def failureNodesAt_def)
  from Some have "i < length failing \<and> check i (failing ! i) \<noteq> []
      \<and> (\<forall>j < i. check j (failing ! j) = [])"
    unfolding find_Some_iff by auto
  with s b show ?thesis by simp
qed

lemma locateFailure_reports:
  assumes "j < length failing" and "check j (failing ! j) \<noteq> []"
  shows "locateFailure check oracleVar True failing \<noteq> []"
proof -
  from assms have "\<exists>i \<in> set [0..<length failing]. check i (failing ! i) \<noteq> []"
    by auto
  then obtain i where f: "find (\<lambda>i. check i (failing ! i) \<noteq> []) [0..<length failing] = Some i"
    by (cases "find (\<lambda>i. check i (failing ! i) \<noteq> []) [0..<length failing]")
       (auto simp: find_None_iff)
  then have "check i (failing ! i) \<noteq> []"
    unfolding find_Some_iff by auto
  then have "rankVariables oracleVar (check i (failing ! i)) \<noteq> []"
    by (cases "check i (failing ! i)") (auto simp: rankVariables_def)
  then have "enumerate 0 (rankVariables oracleVar (check i (failing ! i))) \<noteq> []"
    by (metis length_enumerate length_0_conv)
  with f show ?thesis
    by (simp add: locateFailure_def failureNodesAt_def)
qed

text \<open>
  C3. The reported failure point is the earliest disagreement. Every FailureNode that
  the locator reports for a failing trace with a passing comparison trace is at a step
  that disagrees, at or before every other disagreeing step of the trace, so at or before
  the final one; and a trace with a disagreeing step gets a FailureNode. In the client,
  for a node with at least one failed step, handleNodeClick activates the first failed step
  of that node in execution order.
\<close>

theorem earliest_failure_reported:
  "(fn \<in> set (locateFailure check oracleVar True failing)
      \<and> j < length failing \<and> check j (failing ! j) \<noteq> []
    \<longrightarrow> fn_step fn \<le> j \<and> check (fn_step fn) (failing ! fn_step fn) \<noteq> [])
   \<and> (j < length failing \<and> check j (failing ! j) \<noteq> []
    \<longrightarrow> locateFailure check oracleVar True failing \<noteq> [])
   \<and> ((\<exists>s \<in> set steps. step_blockId s = nodeId \<and> step_status s = Failed)
    \<longrightarrow> (\<exists>i < length steps.
           step_blockId (steps ! i) = nodeId \<and> step_status (steps ! i) = Failed
         \<and> activeStepId (handleNodeClick steps nodeId sel) = Some (step_id (steps ! i))
         \<and> (\<forall>k < i. \<not> (step_blockId (steps ! k) = nodeId \<and> step_status (steps ! k) = Failed))))"
proof (intro conjI impI)
  assume a: "fn \<in> set (locateFailure check oracleVar True failing)
      \<and> j < length failing \<and> check j (failing ! j) \<noteq> []"
  then have "\<forall>k < fn_step fn. check k (failing ! k) = []"
    using locateFailure_step [of fn check oracleVar failing] by blast
  with a show "fn_step fn \<le> j"
    by (meson not_le_imp_less)
  from a show "check (fn_step fn) (failing ! fn_step fn) \<noteq> []"
    using locateFailure_step [of fn check oracleVar failing] by blast
next
  assume "j < length failing \<and> check j (failing ! j) \<noteq> []"
  then show "locateFailure check oracleVar True failing \<noteq> []"
    using locateFailure_reports by blast
next
  assume "\<exists>s \<in> set steps. step_blockId s = nodeId \<and> step_status s = Failed"
  then show "\<exists>i < length steps.
           step_blockId (steps ! i) = nodeId \<and> step_status (steps ! i) = Failed
         \<and> activeStepId (handleNodeClick steps nodeId sel) = Some (step_id (steps ! i))
         \<and> (\<forall>k < i. \<not> (step_blockId (steps ! k) = nodeId \<and> step_status (steps ! k) = Failed))"
    by (rule handleNodeClick_first_failed)
qed

theorem earliest_failure_reported_witness:
  "locateFailure scenarioCheck ''y'' True scenarioTrace
     = [\<lparr> fn_block = ''negate'', fn_step = 1, fn_variables = [''y''], fn_rank = 0 \<rparr>]
   \<and> scenarioCheck 2 (scenarioTrace ! 2) \<noteq> []
   \<and> fn_step (hd (locateFailure scenarioCheck ''y'' True scenarioTrace)) \<le> 2
   \<and> activeStepId (handleNodeClick mockSteps_counter ''block-C''
        \<lparr> activeStepId = None, activeNodeId = None \<rparr>) = Some ''step-3''
   \<and> map step_id (filter (\<lambda>s. step_blockId s = ''block-C'' \<and> step_status s = Failed)
        mockSteps_counter) = [''step-3'', ''step-5'']"
proof -
  have ev: "locateFailure scenarioCheck ''y'' True scenarioTrace
     = [\<lparr> fn_block = ''negate'', fn_step = 1, fn_variables = [''y''], fn_rank = 0 \<rparr>]"
    by (simp add: locateFailure_def failureNodesAt_def rankVariables_def scenarioCheck_def
          scenarioTrace_def upt_rec)
  have last: "(2::nat) < length scenarioTrace" "scenarioCheck 2 (scenarioTrace ! 2) \<noteq> []"
    by (simp_all add: scenarioCheck_def scenarioTrace_def)
  have mem: "hd (locateFailure scenarioCheck ''y'' True scenarioTrace)
      \<in> set (locateFailure scenarioCheck ''y'' True scenarioTrace)"
    by (simp add: ev)
  have le: "fn_step (hd (locateFailure scenarioCheck ''y'' True scenarioTrace)) \<le> 2"
    using earliest_failure_reported
      [of "hd (locateFailure scenarioCheck ''y'' True scenarioTrace)" scenarioCheck "''y''"
          scenarioTrace 2, THEN conjunct1] mem last
    by blast
  have click: "activeStepId (handleNodeClick mockSteps_counter ''block-C''
        \<lparr> activeStepId = None, activeNodeId = None \<rparr>) = Some ''step-3''"
    by (simp add: handleNodeClick_def mockSteps_counter_def Let_def)
  have failed: "map step_id (filter (\<lambda>s. step_blockId s = ''block-C'' \<and> step_status s = Failed)
        mockSteps_counter) = [''step-3'', ''step-5'']"
    by (simp add: mockSteps_counter_def)
  from ev last le click failed show ?thesis by simp
qed

section \<open>The bounded failure slice\<close>

















lemma scenario_predecessors:
  "predecessors scenarioCfg ''negate'' = [''test'']"
  "predecessors scenarioCfg ''test'' = []"
  by (simp_all add: predecessors_def scenarioCfg_def)


text \<open>In the scenario the block of the FailureNode has a predecessor of its own, so no
  set of at most one block holds the FailureNode block and is closed under predecessors,
  whatever the extractor does.\<close>

lemma scenario_no_closed_slice_of_one:
  assumes "finite S" and "card S \<le> 1" and "''negate'' \<in> S"
  shows "\<not> set (predecessors scenarioCfg ''negate'') \<subseteq> S"
proof
  assume "set (predecessors scenarioCfg ''negate'') \<subseteq> S"
  then have "{''negate'', ''test''} \<subseteq> S"
    using assms(3) by (simp add: scenario_predecessors)
  with assms(1) have "card {''negate'', ''test''} \<le> card S"
    by (rule card_mono)
  with assms(2) show False
    by simp
qed



section \<open>Purity of the payload transforms\<close>

lemma mapSet_new: "k \<notin> set (map fst m) \<Longrightarrow> mapSet m k v = m @ [(k, v)]"
  by (induction m k v rule: mapSet.induct) auto

lemma contents_keys: "map fst (contents fm h) = map fst fm"
  by (simp add: contents_def comp_def)

lemma map_of_contents: "map_of (contents fm h) f = map_option (\<lambda>a. h ! a) (map_of fm f)"
  by (induction fm) (auto simp: contents_def)

lemma contents_append_store:
  "list_all (\<lambda>a. a < length h) (map snd fm) \<Longrightarrow> contents fm (h @ xs) = contents fm h"
  by (induction fm) (auto simp: contents_def nth_append)

lemma contents_update_other:
  "a \<notin> set (map snd fm) \<Longrightarrow> contents fm (h[a := v]) = contents fm h"
  by (induction fm) (auto simp: contents_def)

lemma contents_update:
  "distinct (map snd fm) \<Longrightarrow> map_of fm f = Some a \<Longrightarrow>
   list_all (\<lambda>b. b < length h) (map snd fm) \<Longrightarrow>
   contents fm (h[a := v]) = mapSet (contents fm h) f v"
proof (induction fm)
  case Nil
  then show ?case by simp
next
  case (Cons e fm)
  show ?case
  proof (cases "fst e = f")
    case True
    with Cons.prems have a: "snd e = a" and "a \<notin> set (map snd fm)" and "a < length h"
      by auto
    then have "contents fm (h[a := v]) = contents fm h"
      by (simp add: contents_update_other)
    with True a \<open>a < length h\<close> show ?thesis
      by (simp add: contents_def)
  next
    case False
    with Cons.prems have m: "map_of fm f = Some a"
      by (cases e) auto
    then have "a \<in> set (map snd fm)"
      by (metis map_of_SomeD set_zip_rightD zip_map_fst_snd)
    with Cons.prems have "snd e \<noteq> a"
      by auto
    moreover from Cons.IH Cons.prems m have "contents fm (h[a := v]) = mapSet (contents fm h) f v"
      by simp
    ultimately show ?thesis
      using False by (simp add: contents_def)
  qed
qed

lemma groupStep_st_simp:
  "groupStep_st n (fm, h) =
     (case groupKey n of
        None \<Rightarrow> (fm, h)
      | Some f \<Rightarrow>
          (case map_of fm f of
             None \<Rightarrow> (fm @ [(f, length h)], h @ [[n]])
           | Some a \<Rightarrow> (fm, h[a := h ! a @ [n]])))"
proof (cases "groupKey n")
  case None
  then show ?thesis
    by (auto simp: groupStep_st_def groupKey_def split: option.splits if_splits)
next
  case (Some f)
  then have r: "read (file_field (data n)) = Some f" "truthyString (read (file_field (data n)))"
    by (auto simp: groupKey_def split: if_splits)
  show ?thesis
  proof (cases "map_of fm f")
    case None
    then have nk: "f \<notin> set (map fst fm)"
      by (simp add: map_of_eq_None_iff)
    then have nh: "\<not> mapHas fm f"
      by (simp add: mapHas_def)
    have new: "(let new = alloc [] h in (mapSet fm f (fst new), snd new))
        = (fm @ [(f, length h)], h @ [[]])"
      using nk by (simp add: alloc_def mapSet_new)
    have get: "mapGet (fm @ [(f, length h)]) f = Some (length h)"
      using None by (simp add: mapGet_def map_add_def)
    have "groupStep_st n (fm, h) = (fm @ [(f, length h)], push (length h) n (h @ [[]]))"
      unfolding groupStep_st_def Let_def fst_conv snd_conv
      using r nh new get by (simp add: Let_def)
    then show ?thesis
      by (simp add: Some None push_def)
  next
    case (Some a)
    then have "mapHas fm f"
      unfolding mapHas_def by (metis map_of_eq_None_iff option.distinct(1) set_map)
    with Some \<open>groupKey n = Some f\<close> r show ?thesis
      by (simp add: groupStep_st_def mapGet_def push_def Let_def)
  qed
qed

lemma grouping_read: "grouping h0 fm h \<Longrightarrow> a < length h0 \<Longrightarrow> h ! a = h0 ! a"
  unfolding grouping_def by (metis nth_take)

lemma groupStep_st_refines:
  assumes "grouping h0 fm h"
  shows "grouping h0 (fst (groupStep_st n (fm, h))) (snd (groupStep_st n (fm, h)))
       \<and> contents (fst (groupStep_st n (fm, h))) (snd (groupStep_st n (fm, h)))
           = groupStep n (contents fm h)"
proof (cases "groupKey n")
  case None
  with assms show ?thesis
    by (simp add: groupStep_st_simp groupStep_simp)
next
  case (Some f)
  from assms have len: "length h0 \<le> length h" and pre: "take (length h0) h = h0"
    and rng: "list_all (\<lambda>a. length h0 \<le> a \<and> a < length h) (map snd fm)"
    and da: "distinct (map snd fm)" and dk: "distinct (map fst fm)"
    by (simp_all add: grouping_def)
  from rng have lt: "list_all (\<lambda>a. a < length h) (map snd fm)"
    by (simp add: list_all_iff)
  show ?thesis
  proof (cases "map_of fm f")
    case None
    then have nk: "f \<notin> set (map fst fm)"
      by (simp add: map_of_eq_None_iff)
    have st: "groupStep_st n (fm, h) = (fm @ [(f, length h)], h @ [[n]])"
      by (simp add: groupStep_st_simp Some None)
    have g: "grouping h0 (fm @ [(f, length h)]) (h @ [[n]])"
      using len pre rng da dk nk
      by (auto simp: grouping_def list_all_iff)
    have "contents (fm @ [(f, length h)]) (h @ [[n]]) = contents fm h @ [(f, [n])]"
      using contents_append_store [OF lt, of "[[n]]"] by (simp add: contents_def)
    also have "\<dots> = groupStep n (contents fm h)"
      using nk None by (simp add: groupStep_simp Some map_of_contents mapSet_new contents_keys)
    finally show ?thesis
      using g by (simp add: st)
  next
    case (Some a)
    then have ain: "a \<in> set (map snd fm)"
      by (metis map_of_SomeD set_zip_rightD zip_map_fst_snd)
    with rng have ar: "length h0 \<le> a" "a < length h"
      by (auto simp: list_all_iff)
    have st: "groupStep_st n (fm, h) = (fm, h[a := h ! a @ [n]])"
      by (simp add: groupStep_st_simp \<open>groupKey n = Some f\<close> Some)
    have g: "grouping h0 fm (h[a := h ! a @ [n]])"
      using len pre rng da dk ar by (simp add: grouping_def)
    have "contents fm (h[a := h ! a @ [n]]) = mapSet (contents fm h) f (h ! a @ [n])"
      using da Some lt by (rule contents_update)
    also have "\<dots> = groupStep n (contents fm h)"
      by (simp add: groupStep_simp \<open>groupKey n = Some f\<close> map_of_contents Some)
    finally show ?thesis
      using g by (simp add: st)
  qed
qed

lemma fold_groupStep_st_refines:
  assumes "grouping h0 fm h" and "nodesRef < length h0"
  shows "grouping h0
           (fst (fold (\<lambda>i st. groupStep_st (snd st ! nodesRef ! i) st) is (fm, h)))
           (snd (fold (\<lambda>i st. groupStep_st (snd st ! nodesRef ! i) st) is (fm, h)))
       \<and> contents (fst (fold (\<lambda>i st. groupStep_st (snd st ! nodesRef ! i) st) is (fm, h)))
                  (snd (fold (\<lambda>i st. groupStep_st (snd st ! nodesRef ! i) st) is (fm, h)))
           = fold groupStep (map (\<lambda>i. h0 ! nodesRef ! i) is) (contents fm h)"
  using assms(1)
proof (induction "is" arbitrary: fm h)
  case Nil
  then show ?case by simp
next
  case (Cons i "is")
  define st where "st = groupStep_st (h0 ! nodesRef ! i) (fm, h)"
  have rd: "h ! nodesRef = h0 ! nodesRef"
    using Cons.prems assms(2) by (rule grouping_read)
  from groupStep_st_refines [OF Cons.prems, of "h0 ! nodesRef ! i"]
  have g: "grouping h0 (fst st) (snd st)"
    and c: "contents (fst st) (snd st) = groupStep (h0 ! nodesRef ! i) (contents fm h)"
    by (simp_all add: st_def)
  from Cons.IH [OF g] c show ?case
    by (simp add: rd st_def [symmetric])
qed

lemma sourceStep_st_simp:
  "sourceStep_st (f, a) (sources, h)
     = (sourceStep (f, h ! a) sources, h @ [sort_key lineKey (h ! a)])"
  by (simp add: sourceStep_st_def sourceStep_def alloc_def sortInPlace_def Let_def)

lemma fold_sourceStep_st_refines:
  "list_all (\<lambda>a. a < length h) (map snd fm) \<Longrightarrow>
   fst (fold sourceStep_st fm (sources, h)) = fold sourceStep (contents fm h) sources
   \<and> length h \<le> length (snd (fold sourceStep_st fm (sources, h)))
   \<and> take (length h) (snd (fold sourceStep_st fm (sources, h))) = h"
proof (induction fm arbitrary: sources h)
  case Nil
  then show ?case by (simp add: contents_def)
next
  case (Cons e fm)
  obtain f a where e: "e = (f, a)"
    by (cases e)
  define h' where "h' = h @ [sort_key lineKey (h ! a)]"
  from Cons.prems have lt: "list_all (\<lambda>a. a < length h) (map snd fm)" and a: "a < length h"
    by (simp_all add: e)
  then have lt': "list_all (\<lambda>a. a < length h') (map snd fm)"
    by (auto simp: h'_def list_all_iff)
  have c: "contents fm h' = contents fm h"
    unfolding h'_def using lt by (rule contents_append_store)
  note ih = Cons.IH [OF lt', of "sourceStep (f, h ! a) sources"]
  have step: "fold sourceStep_st (e # fm) (sources, h)
      = fold sourceStep_st fm (sourceStep (f, h ! a) sources, h')"
    by (simp add: e sourceStep_st_simp h'_def)
  have ce: "contents (e # fm) h = (f, h ! a) # contents fm h"
    by (simp add: contents_def e)
  have 1: "fst (fold sourceStep_st (e # fm) (sources, h))
      = fold sourceStep (contents (e # fm) h) sources"
    unfolding step ce using ih unfolding c by simp
  have 2: "length h \<le> length (snd (fold sourceStep_st (e # fm) (sources, h)))"
    unfolding step using ih by (simp add: h'_def)
  have "take (length h) (snd (fold sourceStep_st (e # fm) (sources, h)))
      = take (length h) (take (length h') (snd (fold sourceStep_st (e # fm) (sources, h))))"
    by (simp add: h'_def min_def)
  also have "\<dots> = take (length h) h'"
    unfolding step using ih by simp
  also have "\<dots> = h"
    by (simp add: h'_def)
  finally show ?case
    using 1 2 by blast
qed

lemma extractSourcesFromNodes_st_refines:
  assumes "nodesRef < length h"
  shows "fst (extractSourcesFromNodes_st nodesRef h) = extractSourcesFromNodes (h ! nodesRef)
       \<and> length h \<le> length (snd (extractSourcesFromNodes_st nodesRef h))
       \<and> take (length h) (snd (extractSourcesFromNodes_st nodesRef h)) = h"
proof -
  define grouped where
    "grouped = fold (\<lambda>i st. groupStep_st (snd st ! nodesRef ! i) st)
                 [0..<length (h ! nodesRef)] ([], h)"
  have g0: "grouping h [] h"
    by (simp add: grouping_def)
  from fold_groupStep_st_refines [OF g0 assms, of "[0..<length (h ! nodesRef)]"]
  have g: "grouping h (fst grouped) (snd grouped)"
    and c: "contents (fst grouped) (snd grouped) = fold groupStep (h ! nodesRef) []"
    by (simp_all add: grouped_def map_nth contents_def)
  from g have lt: "list_all (\<lambda>a. a < length (snd grouped)) (map snd (fst grouped))"
    and len: "length h \<le> length (snd grouped)" and pre: "take (length h) (snd grouped) = h"
    by (simp_all add: grouping_def list_all_iff)
  note s = fold_sourceStep_st_refines [OF lt, of "[]"]
  have r: "extractSourcesFromNodes_st nodesRef h
      = fold sourceStep_st (fst grouped) ([], snd grouped)"
    by (simp add: extractSourcesFromNodes_st_def grouped_def Let_def)
  have 1: "fst (extractSourcesFromNodes_st nodesRef h) = extractSourcesFromNodes (h ! nodesRef)"
    using s c by (simp add: r extractSourcesFromNodes_def)
  have 2: "length h \<le> length (snd (extractSourcesFromNodes_st nodesRef h))"
    using s len by (simp add: r)
  have "take (length h) (snd (extractSourcesFromNodes_st nodesRef h))
      = take (length h) (take (length (snd grouped)) (snd (extractSourcesFromNodes_st nodesRef h)))"
    using len by (simp add: min_def)
  also have "\<dots> = take (length h) (snd grouped)"
    using s by (simp add: r)
  finally show ?thesis
    using 1 2 pre by simp
qed


text \<open>
  C7. Both payload transforms are pure and deterministic. Run on a store,
  extractSourcesFromNodes returns what the function of the contents of its argument array
  returns, leaves every array that was in the store as it was (its argument among them),
  and returns the same when it is run again on the store it left; two runs on argument
  arrays with equal contents, in any two stores, return equal results. The same holds for
  transformApiResponseToReactFlow, which does not write to the store at all.
\<close>

theorem payload_transforms_pure:
  "(nodesRef < length h \<longrightarrow>
      fst (extractSourcesFromNodes_st nodesRef h) = extractSourcesFromNodes (h ! nodesRef)
      \<and> (\<forall>a < length h. snd (extractSourcesFromNodes_st nodesRef h) ! a = h ! a)
      \<and> fst (extractSourcesFromNodes_st nodesRef (snd (extractSourcesFromNodes_st nodesRef h)))
          = fst (extractSourcesFromNodes_st nodesRef h))
   \<and> (nodesRef < length h \<and> nodesRef' < length h' \<and> h ! nodesRef = h' ! nodesRef' \<longrightarrow>
      fst (extractSourcesFromNodes_st nodesRef h) = fst (extractSourcesFromNodes_st nodesRef' h'))
   \<and> fst (transformApiResponseToReactFlow_st r s) = transformApiResponseToReactFlow (deref r s)
   \<and> snd (transformApiResponseToReactFlow_st r s) = s
   \<and> (deref r s = deref r' s' \<longrightarrow>
      fst (transformApiResponseToReactFlow_st r s) = fst (transformApiResponseToReactFlow_st r' s'))"
proof -
  have frame: "\<forall>a < length h. snd (extractSourcesFromNodes_st nodesRef h) ! a = h ! a"
    if "nodesRef < length h" for nodesRef h
  proof (intro allI impI)
    fix a
    assume "a < length h"
    then have "take (length h) (snd (extractSourcesFromNodes_st nodesRef h)) ! a
        = snd (extractSourcesFromNodes_st nodesRef h) ! a"
      by simp
    then show "snd (extractSourcesFromNodes_st nodesRef h) ! a = h ! a"
      using extractSourcesFromNodes_st_refines [OF that] by simp
  qed
  have res: "fst (extractSourcesFromNodes_st nodesRef h) = extractSourcesFromNodes (h ! nodesRef)"
    if "nodesRef < length h" for nodesRef h
    using extractSourcesFromNodes_st_refines [OF that] by simp
  have again: "fst (extractSourcesFromNodes_st nodesRef (snd (extractSourcesFromNodes_st nodesRef h)))
      = fst (extractSourcesFromNodes_st nodesRef h)"
    if "nodesRef < length h" for nodesRef h
  proof -
    from that have "nodesRef < length (snd (extractSourcesFromNodes_st nodesRef h))"
      using extractSourcesFromNodes_st_refines [OF that] by simp
    then have "fst (extractSourcesFromNodes_st nodesRef (snd (extractSourcesFromNodes_st nodesRef h)))
        = extractSourcesFromNodes (snd (extractSourcesFromNodes_st nodesRef h) ! nodesRef)"
      by (rule res)
    also have "\<dots> = extractSourcesFromNodes (h ! nodesRef)"
      using frame [OF that] that by simp
    finally show ?thesis
      using res [OF that] by simp
  qed
  have t: "fst (transformApiResponseToReactFlow_st r s) = transformApiResponseToReactFlow (deref r s)"
    for r s
    by (simp add: transformApiResponseToReactFlow_st_def transformApiResponseToReactFlow_def
          deref_def Let_def)
  have ts: "snd (transformApiResponseToReactFlow_st r s) = s"
    by (simp add: transformApiResponseToReactFlow_st_def Let_def)
  from frame res again t ts show ?thesis
    by metis
qed

theorem payload_transforms_pure_witness:
  "fst (extractSourcesFromNodes_st 1 [initialNodes, sampleSourceNodes])
     = [\<lparr> src_file_path = ''a.py'',
          src_code = ''y = -y'' @ [CHR 0x0A, CHR 0x0A] @ ''return y'' \<rparr>]
   \<and> snd (extractSourcesFromNodes_st 1 [initialNodes, sampleSourceNodes]) ! 0 = initialNodes
   \<and> snd (extractSourcesFromNodes_st 1 [initialNodes, sampleSourceNodes]) ! 1 = sampleSourceNodes
   \<and> fst (transformApiResponseToReactFlow_st sampleApiRef sampleApiStore)
       = transformApiResponseToReactFlow sampleApiResponse
   \<and> snd (transformApiResponseToReactFlow_st sampleApiRef sampleApiStore) = sampleApiStore"
proof -
  have l: "(1::nat) < length [initialNodes, sampleSourceNodes]"
    by simp
  note t = payload_transforms_pure [of 1 "[initialNodes, sampleSourceNodes]" 1
      "[initialNodes, sampleSourceNodes]" sampleApiRef sampleApiStore sampleApiRef sampleApiStore]
  from t l have 1: "fst (extractSourcesFromNodes_st 1 [initialNodes, sampleSourceNodes])
      = extractSourcesFromNodes ([initialNodes, sampleSourceNodes] ! 1)"
    by blast
  from t l have f: "\<forall>a < length [initialNodes, sampleSourceNodes].
      snd (extractSourcesFromNodes_st 1 [initialNodes, sampleSourceNodes]) ! a
        = [initialNodes, sampleSourceNodes] ! a"
    by blast
  have 2: "snd (extractSourcesFromNodes_st 1 [initialNodes, sampleSourceNodes]) ! 0 = initialNodes"
    using f [rule_format, of 0] by simp
  have 3: "snd (extractSourcesFromNodes_st 1 [initialNodes, sampleSourceNodes]) ! 1
      = sampleSourceNodes"
    using f [rule_format, of 1] by simp
  have d: "deref sampleApiRef sampleApiStore = sampleApiResponse"
    by (simp add: deref_def sampleApiRef_def sampleApiStore_def sampleApiResponse_def)
  from t have 4: "fst (transformApiResponseToReactFlow_st sampleApiRef sampleApiStore)
       = transformApiResponseToReactFlow sampleApiResponse"
    unfolding d by blast
  from t have 5: "snd (transformApiResponseToReactFlow_st sampleApiRef sampleApiStore) = sampleApiStore"
    by blast
  from 1 2 3 4 5 show ?thesis
    by (simp add: sampleSourceNodes_sources)
qed

end
